theory Spec2Isabelle
  imports Main
begin

section \<open>JavaScript strings\<close>

text \<open>
  A JavaScript string is a sequence of UTF-16 code units. The model uses \<open>string\<close>
  (a list of 8-bit \<open>char\<close>s) and reads each \<open>char\<close> as the code unit of the same
  number, so it covers the strings over U+0000..U+00FF (ASCII and Latin-1). The
  built-ins below are the ones the bot calls, restricted to that range.
\<close>

definition code :: "char \<Rightarrow> nat" where
  "code c = of_char c"

text \<open>
  \<open>String.prototype.toLowerCase\<close>: the letters A..Z and the Latin-1 capitals
  U+00C0..U+00DE (without the multiplication sign U+00D7) move up by 32.
\<close>

definition toLowerCase_char :: "char \<Rightarrow> char" where
  "toLowerCase_char c =
     (if (65 \<le> code c \<and> code c \<le> 90) \<or> (192 \<le> code c \<and> code c \<le> 222 \<and> code c \<noteq> 215)
      then char_of (code c + 32) else c)"

definition toLowerCase :: "string \<Rightarrow> string" where
  "toLowerCase s = map toLowerCase_char s"

text \<open>
  \<open>String.prototype.toUpperCase\<close> on a..z and on U+00E0..U+00FE (without the division
  sign U+00F7); the sharp s (U+00DF) becomes the two letters SS. The two Latin-1
  letters whose capital lies outside the range (U+00B5, U+00FF) are left as they are.
\<close>

definition toUpperCase_char :: "char \<Rightarrow> string" where
  "toUpperCase_char c =
     (if code c = 223 then ''SS''
      else if (97 \<le> code c \<and> code c \<le> 122) \<or> (224 \<le> code c \<and> code c \<le> 254 \<and> code c \<noteq> 247)
      then [char_of (code c - 32)] else [c])"

definition toUpperCase :: "string \<Rightarrow> string" where
  "toUpperCase s = concat (map toUpperCase_char s)"

text \<open>
  \<open>String.prototype.trim\<close> removes white space and line terminators from both ends:
  TAB, LF, VT, FF, CR, SPACE and NO-BREAK SPACE in this range.
\<close>

definition isWhiteSpace :: "char \<Rightarrow> bool" where
  "isWhiteSpace c = (code c \<in> {9, 10, 11, 12, 13, 32, 160})"

definition trim :: "string \<Rightarrow> string" where
  "trim s = rev (dropWhile isWhiteSpace (rev (dropWhile isWhiteSpace s)))"

text \<open>\<open>s.includes(sub)\<close>: \<open>sub\<close> occurs in \<open>s\<close> as a contiguous run.\<close>

fun includes_str :: "string \<Rightarrow> string \<Rightarrow> bool" where
  "includes_str [] sub = (sub = [])"
| "includes_str (c # cs) sub = (take (length sub) (c # cs) = sub \<or> includes_str cs sub)"

text \<open>\<open>xs.join(sep)\<close>.\<close>

fun join :: "string \<Rightarrow> string list \<Rightarrow> string" where
  "join sep [] = []"
| "join sep [x] = x"
| "join sep (x # y # ys) = x @ sep @ join sep (y # ys)"

section \<open>Regular expressions: the patterns the word matcher builds\<close>

text \<open>
  \<open>containsAbusiveWord\<close> builds \<^verbatim>\<open>new RegExp(`\\b${word.toLowerCase()}\\b`, 'i')\<close>: the
  word is pasted into the pattern unescaped, so its characters are read as regular
  expression syntax. The model interprets the part of the pattern language made of
  \<^item> the assertion \<^verbatim>\<open>\b\<close>,
  \<^item> ordinary characters and the wildcard \<^verbatim>\<open>.\<close>,
  \<^item> the quantifiers \<^verbatim>\<open>*\<close>, \<^verbatim>\<open>+\<close>, \<^verbatim>\<open>?\<close>, each optionally followed by the lazy
    marker \<^verbatim>\<open>?\<close> (which changes which match is found, not whether one exists).

  A pattern that uses anything else (\<^verbatim>\<open>^ $ ( ) [ ] { } |\<close>, or a backslash escape other
  than \<^verbatim>\<open>\b\<close>) is handed to \<open>engine\<close>, a parameter standing for the JavaScript engine
  on those patterns: \<open>engine p = None\<close> when the constructor throws a SyntaxError,
  \<open>Some t\<close> with \<open>t\<close> the \<open>test\<close> function of the compiled expression otherwise.
\<close>

datatype atom = Lit char | AnyChar

datatype quantifier = Once | Opt | Star | Plus

datatype item = WordBoundary | Atom atom quantifier

datatype compiled = Items "item list" | SyntaxError | Unmodelled

datatype parse_mode = NoAtom | AfterAtom | AfterQuantifier

definition isQuantifierChar :: "char \<Rightarrow> bool" where
  "isQuantifierChar c = (c \<in> set ''*+?'')"

definition isOtherSyntaxChar :: "char \<Rightarrow> bool" where
  "isOtherSyntaxChar c = (c \<in> set ''^$()[]{}|'')"

definition quantifier_of :: "char \<Rightarrow> quantifier" where
  "quantifier_of c = (if c = CHR ''*'' then Star else if c = CHR ''+'' then Plus else Opt)"

text \<open>
  One pass over the pattern, left to right. \<open>acc\<close> holds the items read so far, last
  first. A quantifier needs an atom right before it (\<open>AfterAtom\<close>); directly after a
  quantifier only the lazy marker may follow (\<open>AfterQuantifier\<close>); a quantifier at the
  start, after \<^verbatim>\<open>\b\<close> or after a complete quantifier is the SyntaxError
  "Nothing to repeat". Everything before the first unmodelled character stands outside
  any group or class, so an error found there does not depend on what follows.
\<close>

fun parse_pattern :: "parse_mode \<Rightarrow> item list \<Rightarrow> string \<Rightarrow> compiled" where
  "parse_pattern m acc [] = Items (rev acc)"
| "parse_pattern m acc (c # r) =
     (if c = CHR 0x5C then
        (case r of
           [] \<Rightarrow> Unmodelled
         | d # r' \<Rightarrow> if d = CHR ''b'' then parse_pattern NoAtom (WordBoundary # acc) r' else Unmodelled)
      else if isOtherSyntaxChar c then Unmodelled
      else if isQuantifierChar c then
        (case m of
           NoAtom \<Rightarrow> SyntaxError
         | AfterAtom \<Rightarrow>
             (case acc of
                Atom a Once # acc' \<Rightarrow> parse_pattern AfterQuantifier (Atom a (quantifier_of c) # acc') r
              | _ \<Rightarrow> SyntaxError)
         | AfterQuantifier \<Rightarrow> if c = CHR ''?'' then parse_pattern NoAtom acc r else SyntaxError)
      else parse_pattern AfterAtom (Atom (if c = CHR ''.'' then AnyChar else Lit c) Once # acc) r)"

text \<open>
  \<^verbatim>\<open>\b\<close> holds at position \<open>i\<close> of \<open>s\<close> when exactly one of the characters before and
  after the position is a word character \<open>[A-Za-z0-9_]\<close>; outside the string there is
  no word character.
\<close>

definition isWordChar :: "char \<Rightarrow> bool" where
  "isWordChar c =
     ((48 \<le> code c \<and> code c \<le> 57) \<or> (65 \<le> code c \<and> code c \<le> 90) \<or> code c = 95
      \<or> (97 \<le> code c \<and> code c \<le> 122))"

definition isWordBoundary :: "string \<Rightarrow> nat \<Rightarrow> bool" where
  "isWordBoundary s i =
     ((0 < i \<and> i \<le> length s \<and> isWordChar (s ! (i - 1))) \<noteq> (i < length s \<and> isWordChar (s ! i)))"

text \<open>
  With the flag \<open>i\<close> an ordinary character matches the characters that have the same
  case folding; on this range that is having the same lower case. The wildcard matches
  everything but the line terminators LF and CR.
\<close>

fun atom_matches :: "atom \<Rightarrow> char \<Rightarrow> bool" where
  "atom_matches (Lit p) c = (toLowerCase_char c = toLowerCase_char p)"
| "atom_matches AnyChar c = (code c \<noteq> 10 \<and> code c \<noteq> 13)"

text \<open>The positions a repetition of atom \<open>a\<close> can reach from \<open>i\<close>: \<open>i\<close>, \<open>i + 1\<close>, ... as far as the characters match.\<close>

definition run_ends :: "atom \<Rightarrow> string \<Rightarrow> nat \<Rightarrow> nat list" where
  "run_ends a s i = map (\<lambda>k. i + k) [0..<Suc (length (takeWhile (atom_matches a) (drop i s)))]"

text \<open>\<open>matches its s i\<close>: the items match a run of \<open>s\<close> that starts at position \<open>i\<close>.\<close>

fun matches :: "item list \<Rightarrow> string \<Rightarrow> nat \<Rightarrow> bool" where
  "matches [] s i = True"
| "matches (WordBoundary # r) s i = (isWordBoundary s i \<and> matches r s i)"
| "matches (Atom a Once # r) s i = (i < length s \<and> atom_matches a (s ! i) \<and> matches r s (Suc i))"
| "matches (Atom a Opt # r) s i =
     (matches r s i \<or> (i < length s \<and> atom_matches a (s ! i) \<and> matches r s (Suc i)))"
| "matches (Atom a Star # r) s i = list_ex (matches r s) (run_ends a s i)"
| "matches (Atom a Plus # r) s i =
     (i < length s \<and> atom_matches a (s ! i) \<and> list_ex (matches r s) (run_ends a s (Suc i)))"

text \<open>\<open>regex.test(s)\<close> without the flag \<open>g\<close>: some start position 0..length gives a match.\<close>

definition test_items :: "item list \<Rightarrow> string \<Rightarrow> bool" where
  "test_items its s = list_ex (matches its s) [0..<Suc (length s)]"

text \<open>
  \<^verbatim>\<open>new RegExp(pattern, 'i').test(s)\<close>: \<open>None\<close> when the constructor throws, otherwise the
  result of the test.
\<close>

definition RegExp_test :: "(string \<Rightarrow> (string \<Rightarrow> bool) option) \<Rightarrow> string \<Rightarrow> string \<Rightarrow> bool option" where
  "RegExp_test engine pattern s =
     (case parse_pattern NoAtom [] pattern of
        Items its \<Rightarrow> Some (test_items its s)
      | SyntaxError \<Rightarrow> None
      | Unmodelled \<Rightarrow> (case engine pattern of None \<Rightarrow> None | Some t \<Rightarrow> Some (t s)))"

section \<open>The database module\<close>

text \<open>
  The module keeps one handle per collection, \<open>null\<close> until the connection succeeds.
  A handle is modelled as an option: \<open>None\<close> when the collection cannot be used.
  Every exported function catches its own errors and answers with its default
  (\<open>null\<close>, \<open>false\<close>, \<open>[]\<close> or the default settings), so none of them throws.

  Documents keep the fields the bot reads; \<open>createdAt\<close> and \<open>updatedAt\<close> are left out.
\<close>

record groupSettingsDoc =
  settings_chatId :: int
  abusiveWordsEnabled :: bool
  imageModeration :: bool
  videoModeration :: bool

text \<open>
  A document of \<open>alertMessages\<close>, as \<open>setAlertMessage\<close> writes it: the group, the
  announcement, the interval in minutes and the epoch-millisecond time of the last
  dispatch (0 until the first one). Timestamps, intervals and counters are integers
  (\<open>Date.now()\<close>, \<open>parseInt\<close>) far inside the range where JavaScript numbers are
  exact, so they are modelled as \<open>int\<close>.
\<close>

record alertMessage =
  alert_chatId :: int
  message :: string
  interval :: int
  lastSent :: int

record database =
  groupSettings :: "(int \<rightharpoonup> groupSettingsDoc) option"
  abusiveWordsCollection :: "(int \<times> string) list option"
  userWarningsAcrossSessions :: "(int \<times> int \<rightharpoonup> int) option"
  alertMessages :: "alertMessage list option"

text \<open>
  \<open>groupSettings\<close> is keyed by \<open>chatId\<close> and \<open>userWarningsAcrossSessions\<close> by
  \<open>(userId, chatId)\<close> (the \<open>count\<close> field); both are only read with \<open>findOne\<close> and
  written with an upsert on the key. \<open>abusiveWords\<close> holds \<open>(chatId, word)\<close> documents
  and \<open>alertMessages\<close> alert documents, in insertion order.
\<close>

definition getDefaultGroupSettings :: "int \<Rightarrow> groupSettingsDoc" where
  "getDefaultGroupSettings chatId =
     \<lparr>settings_chatId = chatId, abusiveWordsEnabled = True, imageModeration = True,
      videoModeration = True\<rparr>"

text \<open>\<open>getGroupSettings\<close>; \<open>!chatId\<close> holds for the number 0.\<close>

definition getGroupSettings :: "database \<Rightarrow> int \<Rightarrow> groupSettingsDoc" where
  "getGroupSettings db chatId =
     (if chatId = 0 then getDefaultGroupSettings chatId
      else case groupSettings db of
             None \<Rightarrow> getDefaultGroupSettings chatId
           | Some coll \<Rightarrow>
               (case coll chatId of
                  None \<Rightarrow> getDefaultGroupSettings chatId
                | Some settings \<Rightarrow> settings))"

text \<open>\<open>updateGroupSettings\<close>: the upsert, with \<open>chatId\<close> forced into the document.\<close>

definition updateGroupSettings :: "database \<Rightarrow> int \<Rightarrow> groupSettingsDoc \<Rightarrow> bool \<times> database" where
  "updateGroupSettings db chatId settings =
     (if chatId = 0 then (False, db)
      else case groupSettings db of
             None \<Rightarrow> (False, db)
           | Some coll \<Rightarrow>
               (True, db\<lparr>groupSettings := Some (coll(chatId \<mapsto> settings\<lparr>settings_chatId := chatId\<rparr>))\<rparr>))"

text \<open>\<open>getAbusiveWords\<close> (imported by the bot as \<open>getDbAbusiveWords\<close>).\<close>

definition getDbAbusiveWords :: "database \<Rightarrow> int \<Rightarrow> string list" where
  "getDbAbusiveWords db chatId =
     (if chatId = 0 then []
      else case abusiveWordsCollection db of
             None \<Rightarrow> []
           | Some docs \<Rightarrow> map snd (filter (\<lambda>d. fst d = chatId) docs))"

text \<open>
  \<open>addAbusiveWord\<close> of the database module (\<open>addDbAbusiveWord\<close> in the bot): the word is
  normalised, an existing document counts as success, otherwise one is inserted.
\<close>

definition addDbAbusiveWord :: "database \<Rightarrow> int \<Rightarrow> string \<Rightarrow> bool \<times> database" where
  "addDbAbusiveWord db chatId word0 =
     (if chatId = 0 \<or> word0 = [] then (False, db)
      else let word = trim (toLowerCase word0) in
        if length word = 0 then (False, db)
        else case abusiveWordsCollection db of
               None \<Rightarrow> (False, db)
             | Some docs \<Rightarrow>
                 if (chatId, word) \<in> set docs then (True, db)
                 else (True, db\<lparr>abusiveWordsCollection := Some (docs @ [(chatId, word)])\<rparr>))"

text \<open>
  \<open>removeAbusiveWord\<close> of the database module (\<open>removeDbAbusiveWord\<close> in the bot):
  \<open>deleteOne\<close> removes the first matching document; the result is
  \<open>acknowledged && deletedCount > 0\<close>.
\<close>

definition removeDbAbusiveWord :: "database \<Rightarrow> int \<Rightarrow> string \<Rightarrow> bool \<times> database" where
  "removeDbAbusiveWord db chatId word0 =
     (if chatId = 0 \<or> word0 = [] then (False, db)
      else let word = trim (toLowerCase word0) in
        if length word = 0 then (False, db)
        else case abusiveWordsCollection db of
               None \<Rightarrow> (False, db)
             | Some docs \<Rightarrow>
                 ((chatId, word) \<in> set docs,
                  db\<lparr>abusiveWordsCollection := Some (remove1 (chatId, word) docs)\<rparr>))"

text \<open>
  \<open>getUserWarningsAcrossSessions\<close>: the stored count, or \<open>null\<close> for an id that is 0, an
  unusable collection or a missing document.
\<close>

definition getUserWarningsAcrossSessions :: "database \<Rightarrow> int \<Rightarrow> int \<Rightarrow> int option" where
  "getUserWarningsAcrossSessions db userId chatId =
     (if userId = 0 \<or> chatId = 0 then None
      else case userWarningsAcrossSessions db of
             None \<Rightarrow> None
           | Some coll \<Rightarrow> coll (userId, chatId))"

definition updateUserWarningsAcrossSessions :: "database \<Rightarrow> int \<Rightarrow> int \<Rightarrow> int \<Rightarrow> bool \<times> database" where
  "updateUserWarningsAcrossSessions db userId chatId n =
     (if userId = 0 \<or> chatId = 0 \<or> n < 0 then (False, db)
      else case userWarningsAcrossSessions db of
             None \<Rightarrow> (False, db)
           | Some coll \<Rightarrow>
               (True, db\<lparr>userWarningsAcrossSessions := Some (coll((userId, chatId) \<mapsto> n))\<rparr>))"

text \<open>
  \<open>setAlertMessage\<close>: the upsert on \<open>chatId\<close> overwrites the first document of the group
  or appends a new one; either way \<open>lastSent\<close> starts at 0.
\<close>

fun upsertAlert :: "alertMessage \<Rightarrow> alertMessage list \<Rightarrow> alertMessage list" where
  "upsertAlert a [] = [a]"
| "upsertAlert a (d # ds) = (if alert_chatId d = alert_chatId a then a # ds else d # upsertAlert a ds)"

definition setAlertMessage :: "database \<Rightarrow> int \<Rightarrow> string \<Rightarrow> int \<Rightarrow> bool \<times> database" where
  "setAlertMessage db chatId msg minutes =
     (case alertMessages db of
        None \<Rightarrow> (False, db)
      | Some docs \<Rightarrow>
          (True, db\<lparr>alertMessages :=
             Some (upsertAlert \<lparr>alert_chatId = chatId, message = msg, interval = minutes, lastSent = 0\<rparr> docs)\<rparr>))"

text \<open>
  \<open>getAlertMessagesToSend\<close>: with no collection the result is empty; otherwise the
  documents selected by the query
  \<^verbatim>\<open>$expr: { $gt: [now, { $add: ['$lastSent', { $multiply: ['$interval', 60000] }] }] }\<close>,
  in collection order. \<open>now\<close> is the value of \<open>Date.now()\<close> the function reads.
\<close>

definition getAlertMessagesToSend :: "database \<Rightarrow> int \<Rightarrow> alertMessage list" where
  "getAlertMessagesToSend db now =
     (case alertMessages db of
        None \<Rightarrow> []
      | Some docs \<Rightarrow> filter (\<lambda>d. now > lastSent d + interval d * 60000) docs)"

text \<open>\<open>updateAlertMessageLastSent\<close>: \<open>updateOne\<close> without upsert stamps the first document of the group.\<close>

fun stampAlert :: "int \<Rightarrow> int \<Rightarrow> alertMessage list \<Rightarrow> alertMessage list" where
  "stampAlert chatId now [] = []"
| "stampAlert chatId now (d # ds) =
     (if alert_chatId d = chatId then d\<lparr>lastSent := now\<rparr> # ds else d # stampAlert chatId now ds)"

definition updateAlertMessageLastSent :: "database \<Rightarrow> int \<Rightarrow> int \<Rightarrow> bool \<times> database" where
  "updateAlertMessageLastSent db chatId now =
     (case alertMessages db of
        None \<Rightarrow> (False, db)
      | Some docs \<Rightarrow> (True, db\<lparr>alertMessages := Some (stampAlert chatId now docs)\<rparr>))"

section \<open>The bot: word matcher\<close>

text \<open>
  The state of the bot process: the module-level list \<open>abusiveWords\<close> (loaded from
  \<open>abusive_words.json\<close>, declared \<open>string[]\<close>), the database, and the session data
  \<open>ctx.session[`user_${userId}_chat_${chatId}`]\<close>, keyed here by \<open>(userId, chatId)\<close>.
\<close>

record userSession =
  abusiveWordCount :: int
  lastWarning :: int

record bot =
  abusiveWords :: "string list"
  bot_db :: database
  session :: "int \<times> int \<rightharpoonup> userSession"

text \<open>
  The \<open>text\<close> argument as it arrives at run time: a string, or anything else
  (\<open>typeof text !== 'string'\<close>).
\<close>

datatype js_value = Str string | NotAString

text \<open>
  The optional \<open>chatId\<close> argument under \<open>if (chatId)\<close>: the id when it is given and
  not 0, nothing otherwise.
\<close>

definition truthy :: "int option \<Rightarrow> int option" where
  "truthy chatId = (case chatId of None \<Rightarrow> None | Some c \<Rightarrow> if c = 0 then None else Some c)"

definition boundary_pattern :: "string \<Rightarrow> string" where
  "boundary_pattern word = [CHR 0x5C, CHR ''b''] @ toLowerCase word @ [CHR 0x5C, CHR ''b'']"

text \<open>
  The loop over a word list, shared by the local and the database list: the first word
  whose pattern matches \<open>lowerText\<close> ends the loop with \<open>true\<close>; a word whose pattern is
  rejected is looked for with \<open>includes\<close>.
\<close>

fun anyWordMatches :: "(string \<Rightarrow> (string \<Rightarrow> bool) option) \<Rightarrow> string \<Rightarrow> string list \<Rightarrow> bool" where
  "anyWordMatches engine lowerText [] = False"
| "anyWordMatches engine lowerText (word # ws) =
     (case RegExp_test engine (boundary_pattern word) lowerText of
        Some True \<Rightarrow> True
      | Some False \<Rightarrow> anyWordMatches engine lowerText ws
      | None \<Rightarrow> if includes_str lowerText (toLowerCase word) then True
                else anyWordMatches engine lowerText ws)"

definition containsAbusiveWord ::
  "(string \<Rightarrow> (string \<Rightarrow> bool) option) \<Rightarrow> bot \<Rightarrow> js_value \<Rightarrow> int option \<Rightarrow> bool" where
  "containsAbusiveWord engine b text0 chatId =
     (case text0 of
        NotAString \<Rightarrow> False
      | Str t \<Rightarrow>
          if t = [] then False
          else let lowerText = toLowerCase t in
            (case truthy chatId of
               None \<Rightarrow> anyWordMatches engine lowerText (abusiveWords b)
             | Some c \<Rightarrow>
                 if \<not> abusiveWordsEnabled (getGroupSettings (bot_db b) c) then False
                 else if anyWordMatches engine lowerText (abusiveWords b) then True
                 else anyWordMatches engine lowerText (getDbAbusiveWords (bot_db b) c)))"

text \<open>
  \<open>addAbusiveWord\<close> of the bot. \<open>writeOk\<close> says whether \<open>fs.writeFileSync\<close> succeeds; when
  it throws, the word has already been pushed and the function returns \<open>false\<close>
  without reaching the database. The result of the database call is not looked at.
\<close>

definition addAbusiveWord :: "bool \<Rightarrow> bot \<Rightarrow> string \<Rightarrow> int option \<Rightarrow> bool \<times> bot" where
  "addAbusiveWord writeOk b word chatId =
     (let normalizedWord = trim (toLowerCase word);
          isNew = normalizedWord \<notin> set (abusiveWords b);
          b1 = (if isNew then b\<lparr>abusiveWords := abusiveWords b @ [normalizedWord]\<rparr> else b)
      in if isNew \<and> \<not> writeOk then (False, b1)
         else case truthy chatId of
                None \<Rightarrow> (True, b1)
              | Some c \<Rightarrow> (True, b1\<lparr>bot_db := snd (addDbAbusiveWord (bot_db b1) c normalizedWord)\<rparr>))"

text \<open>
  \<open>removeAbusiveWord\<close> of the bot: \<open>findIndex\<close> and \<open>splice\<close> drop the first entry whose
  lower case is the normalised word.
\<close>

fun removeFirst :: "('a \<Rightarrow> bool) \<Rightarrow> 'a list \<Rightarrow> 'a list" where
  "removeFirst P [] = []"
| "removeFirst P (x # xs) = (if P x then xs else x # removeFirst P xs)"

definition removeAbusiveWord :: "bool \<Rightarrow> bot \<Rightarrow> string \<Rightarrow> int option \<Rightarrow> bool \<times> bot" where
  "removeAbusiveWord writeOk b word chatId =
     (let normalizedWord = trim (toLowerCase word);
          found = list_ex (\<lambda>w. toLowerCase w = normalizedWord) (abusiveWords b);
          b1 = (if found
                then b\<lparr>abusiveWords := removeFirst (\<lambda>w. toLowerCase w = normalizedWord) (abusiveWords b)\<rparr>
                else b)
      in if found \<and> \<not> writeOk then (False, b1)
         else case truthy chatId of
                None \<Rightarrow> (True, b1)
              | Some c \<Rightarrow> (True, b1\<lparr>bot_db := snd (removeDbAbusiveWord (bot_db b1) c normalizedWord)\<rparr>))"

section \<open>The bot: escalation\<close>

text \<open>
  What \<open>getChatMember\<close> answers: the member's status and, for an administrator, the two
  rights the bot looks at. \<open>None\<close> stands for a call that throws.
\<close>

datatype memberStatus = Creator | Administrator | Member | Restricted | Left | Kicked

record chatMember =
  status :: memberStatus
  can_delete_messages :: bool
  can_restrict_members :: bool

definition isAdmin :: "chatMember option \<Rightarrow> bool" where
  "isAdmin r = (case r of None \<Rightarrow> False | Some m \<Rightarrow> status m = Administrator \<or> status m = Creator)"

definition isBotAdmin :: "chatMember option \<Rightarrow> bool" where
  "isBotAdmin r =
     (case r of
        None \<Rightarrow> False
      | Some m \<Rightarrow>
          if \<not> (status m = Administrator \<or> status m = Creator) then False
          else if status m = Administrator \<and> \<not> can_delete_messages m then False
          else True)"

text \<open>
  The messages the moderation paths send with \<open>ctx.reply\<close>:
  \<^item> \<open>CannotModerateNotice\<close>: "I detected abusive language but cannot moderate because I
    am not an admin or lack necessary permissions."
  \<^item> \<open>DeleteFailedNotice\<close>: "I detected abusive language but could not delete the
    message. Please check my permissions."
  \<^item> \<open>BanNotice what\<close>: "User ... has been banned for ..." (\<open>what\<close> is \<open>''text''\<close> for
    abusive language, else the content type, \<open>''image''\<close> or \<open>''video''\<close>).
  \<^item> \<open>BanFailedNotice\<close>: "I tried to ban a user but failed. Please check my permissions."
  \<^item> \<open>WarningNotice what n\<close>: "Warning to ...: ... This is warning n/3. You will be
    banned after 3 warnings."
\<close>

datatype reply =
    CannotModerateNotice
  | DeleteFailedNotice
  | BanNotice string
  | BanFailedNotice
  | WarningNotice string int

text \<open>
  The calls a handler makes on the messaging platform, in order, each with whether it
  succeeded (a failed call throws in the source).
\<close>

datatype effect = DeleteMessage bool | BanChatMember bool | Reply reply bool

text \<open>
  One update as the handler sees it: the chat, the sender and the text, the clock, and
  the outcome of each platform call the handler may make while processing it.
\<close>

record update =
  ctx_private :: bool
  ctx_text :: string
  ctx_fromId :: "int option"
  ctx_chatId :: int
  clock :: int
  botMember :: "chatMember option"
  userMember :: "chatMember option"
  deleteMessageOk :: bool
  banChatMemberOk :: bool
  replyOk :: "reply \<Rightarrow> bool"

definition sessionOf :: "bot \<Rightarrow> int \<times> int \<Rightarrow> userSession" where
  "sessionOf b k =
     (case session b k of None \<Rightarrow> \<lparr>abusiveWordCount = 0, lastWarning = 0\<rparr> | Some s \<Rightarrow> s)"

text \<open>"Initialize user data if not exists".\<close>

definition initSession :: "bot \<Rightarrow> int \<times> int \<Rightarrow> bot" where
  "initSession b k = b\<lparr>session := (session b)(k \<mapsto> sessionOf b k)\<rparr>"

text \<open>
  "Get current warnings from database ... Also update session count for redundancy":
  the block that both the text handler and \<open>handleInappropriateContent\<close> run. The two
  database functions never throw, so the \<open>catch\<close> branch with the session-based
  fallback is not reachable and has no counterpart here.
\<close>

definition countViolation :: "bot \<Rightarrow> int \<Rightarrow> int \<Rightarrow> int \<times> bot" where
  "countViolation b userId chatId =
     (let warnings = getUserWarningsAcrossSessions (bot_db b) userId chatId;
          warningCount = (case warnings of None \<Rightarrow> 0 | Some n \<Rightarrow> n) + 1;
          db1 = snd (updateUserWarningsAcrossSessions (bot_db b) userId chatId warningCount);
          s = sessionOf b (userId, chatId)
      in (warningCount,
          b\<lparr>bot_db := db1, session := (session b)((userId, chatId) \<mapsto> s\<lparr>abusiveWordCount := warningCount\<rparr>)\<rparr>))"

text \<open>"Reset count after ban".\<close>

definition resetWarnings :: "bot \<Rightarrow> int \<Rightarrow> int \<Rightarrow> bot" where
  "resetWarnings b userId chatId =
     b\<lparr>bot_db := snd (updateUserWarningsAcrossSessions (bot_db b) userId chatId 0),
       session := (session b)((userId, chatId) \<mapsto> (sessionOf b (userId, chatId))\<lparr>abusiveWordCount := 0\<rparr>)\<rparr>"

text \<open>
  "Only send warning if last warning was more than 1 minute ago": the warning is sent
  when \<open>lastWarning\<close> is 0 or more than 60000 ms old, and \<open>lastWarning\<close> is set only when
  the reply went out.
\<close>

definition warnUser :: "bot \<Rightarrow> update \<Rightarrow> int \<Rightarrow> int \<Rightarrow> string \<Rightarrow> int \<Rightarrow> bot \<times> effect list" where
  "warnUser b ctx userId chatId what warningCount =
     (let now = clock ctx; s = sessionOf b (userId, chatId) in
      if lastWarning s = 0 \<or> now - lastWarning s > 60000 then
        if replyOk ctx (WarningNotice what warningCount)
        then (b\<lparr>session := (session b)((userId, chatId) \<mapsto> s\<lparr>lastWarning := now\<rparr>)\<rparr>,
              [Reply (WarningNotice what warningCount) True])
        else (b, [Reply (WarningNotice what warningCount) False])
      else (b, []))"

text \<open>
  The moderation part of the \<open>message:text\<close> handler. (After it the handler answers
  mentions of the bot with an AI reply; that tail touches neither the counters nor the
  moderation messages and is left out.)
\<close>

definition on_message_text ::
  "(string \<Rightarrow> (string \<Rightarrow> bool) option) \<Rightarrow> bot \<Rightarrow> update \<Rightarrow> bot \<times> effect list" where
  "on_message_text engine b ctx =
     (if ctx_private ctx then (b, [])
      else case ctx_fromId ctx of
        None \<Rightarrow> (b, [])
      | Some userId \<Rightarrow>
          if userId = 0 then (b, [])
          else let chatId = ctx_chatId ctx in
            if \<not> abusiveWordsEnabled (getGroupSettings (bot_db b) chatId) then (b, [])
            else let b0 = initSession b (userId, chatId) in
              if \<not> containsAbusiveWord engine b0 (Str (ctx_text ctx)) (Some chatId) then (b0, [])
              else if \<not> isBotAdmin (botMember ctx)
                then (b0, [Reply CannotModerateNotice (replyOk ctx CannotModerateNotice)])
              else if isAdmin (userMember ctx) then (b0, [])
              else
                let (warningCount, b1) = countViolation b0 userId chatId;
                    messageDeleted = deleteMessageOk ctx;
                    deletion = (if messageDeleted then [DeleteMessage True]
                                else [DeleteMessage False,
                                      Reply DeleteFailedNotice (replyOk ctx DeleteFailedNotice)])
                in if warningCount \<ge> 3 then
                     if \<not> banChatMemberOk ctx
                       then (b1, deletion @ [BanChatMember False,
                                             Reply BanFailedNotice (replyOk ctx BanFailedNotice)])
                     else if \<not> replyOk ctx (BanNotice ''text'')
                       then (b1, deletion @ [BanChatMember True, Reply (BanNotice ''text'') False,
                                             Reply BanFailedNotice (replyOk ctx BanFailedNotice)])
                     else (resetWarnings b1 userId chatId,
                           deletion @ [BanChatMember True, Reply (BanNotice ''text'') True])
                   else if messageDeleted then
                     (let (b2, es) = warnUser b1 ctx userId chatId ''text'' warningCount
                      in (b2, deletion @ es))
                   else (b1, deletion))"

text \<open>
  \<open>handleInappropriateContent\<close>, called by the photo and video handlers after they have
  deleted the flagged message.
\<close>

definition handleInappropriateContent :: "bot \<Rightarrow> update \<Rightarrow> int \<Rightarrow> int \<Rightarrow> string \<Rightarrow> bot \<times> effect list" where
  "handleInappropriateContent b ctx userId chatId contentType =
     (let b0 = initSession b (userId, chatId);
          (warningCount, b1) = countViolation b0 userId chatId
      in if warningCount \<ge> 3 then
           if \<not> banChatMemberOk ctx then (b1, [BanChatMember False])
           else if \<not> replyOk ctx (BanNotice contentType)
             then (b1, [BanChatMember True, Reply (BanNotice contentType) False])
           else (resetWarnings b1 userId chatId,
                 [BanChatMember True, Reply (BanNotice contentType) True])
         else warnUser b1 ctx userId chatId contentType warningCount)"

section \<open>Image moderation (openai module)\<close>

text \<open>
  A \<open>Buffer\<close> is a list of bytes; a byte is a \<open>char\<close>. \<open>buf.toString('base64')\<close> is the
  standard encoding with padding: three bytes give four digits of six bits each.
\<close>

definition base64Digit :: "nat \<Rightarrow> char" where
  "base64Digit n = ''ABCDEFGHIJKLMNOPQRSTUVWXYZabcdefghijklmnopqrstuvwxyz0123456789+/'' ! n"

fun base64 :: "char list \<Rightarrow> string" where
  "base64 [] = []"
| "base64 [a] =
     [base64Digit (code a div 4), base64Digit (code a mod 4 * 16), CHR ''='', CHR ''='']"
| "base64 [a, b] =
     [base64Digit (code a div 4), base64Digit (code a mod 4 * 16 + code b div 16),
      base64Digit (code b mod 16 * 4), CHR ''='']"
| "base64 (a # b # c # r) =
     [base64Digit (code a div 4), base64Digit (code a mod 4 * 16 + code b div 16),
      base64Digit (code b mod 16 * 4 + code c div 64), base64Digit (code c mod 64)] @ base64 r"

text \<open>The argument of \<open>moderateImage\<close> at run time: a buffer, or something that fails \<open>Buffer.isBuffer\<close>.\<close>

datatype image_input = Buffer "char list" | NotABuffer

text \<open>One entry of \<open>moderationResponse.results\<close>: the flag and the category table, when present.\<close>

record moderationResult =
  flagged :: bool
  categories :: "(string \<times> bool) list option"

text \<open>
  Everything outside the function that one call of \<open>moderateImage\<close> depends on:
  \<^item> \<open>apiKey\<close>: \<open>process.env.OPENAI_API_KEY\<close>;
  \<^item> \<open>tempDirExists\<close>, \<open>mkdirOk\<close>: the temporary directory;
  \<^item> \<open>sharpOutput\<close>: the resized JPEG, \<open>None\<close> when \<open>sharp\<close> throws;
  \<^item> \<open>writeResizedOk\<close>, \<open>writeOriginalOk\<close>: the two \<open>writeFileSync\<close> calls;
  \<^item> \<open>moderationResponse\<close>: the \<open>results\<close> of the moderation request, \<open>None\<close> when the
    request throws;
  \<^item> \<open>secondaryResponse\<close>, \<open>ocrResponse\<close>: the \<open>content\<close> of the first choice of the
    two chat requests (\<open>Some None\<close> when there is none), \<open>None\<close> when the request throws.
\<close>

record openai_env =
  apiKey :: "string option"
  tempDirExists :: bool
  mkdirOk :: bool
  sharpOutput :: "char list option"
  writeResizedOk :: bool
  writeOriginalOk :: bool
  moderationResponse :: "moderationResult list option"
  secondaryResponse :: "string option option"
  ocrResponse :: "string option option"

record moderationVerdict =
  isInappropriate :: bool
  reason :: "string option"

datatype stage = Primary | Secondary | PatternMatching | OCR | DirectPatterns

definition explicitTerms :: "string list" where
  "explicitTerms =
     [''slut'', ''whore'', ''bitch'', ''fuck'', ''sex'', ''porn'', ''xxx'', ''nude'', ''naked'',
      ''ass'', ''tits'', ''boobs'', ''cock'', ''dick'', ''pussy'', ''cunt'', ''vagina'', ''penis'',
      ''anal'', ''cum'', ''jizz'', ''hooker'', ''escort'', ''stripper'', ''hoe'', ''thot'']"

definition slut_patterns :: "string list" where
  "slut_patterns = [''U1VMVA=='', ''c2x1dA=='', ''U2x1dA=='', ''SLUT'', ''slut'', ''Slut'']"

text \<open>
  Resizing and the temporary file: the buffer that goes on to classification, or
  \<open>None\<close> when the function gives up (fallback write failed).
\<close>

definition prepareImage :: "openai_env \<Rightarrow> char list \<Rightarrow> char list option" where
  "prepareImage env imageBuffer =
     (case sharpOutput env of
        Some resized \<Rightarrow>
          if writeResizedOk env then Some resized
          else if writeOriginalOk env then Some imageBuffer else None
      | None \<Rightarrow> if writeOriginalOk env then Some imageBuffer else None)"

text \<open>
  First attempt (omni-moderation): the values of \<open>isInappropriate\<close> and \<open>reason\<close> after
  the block. A request that throws leaves both at their initial values.
\<close>

definition primaryCheck :: "moderationResult list option \<Rightarrow> bool \<times> string" where
  "primaryCheck response =
     (case response of
        None \<Rightarrow> (False, [])
      | Some results \<Rightarrow>
          (case results of
             [] \<Rightarrow> (False, ''Inappropriate content detected'')
           | result # _ \<Rightarrow>
               (flagged result,
                if flagged result then
                  (case categories result of
                     None \<Rightarrow> ''Inappropriate content detected''
                   | Some cats \<Rightarrow>
                       (let flaggedCategories = map fst (filter snd cats)
                        in if length flaggedCategories > 0
                           then ''Flagged categories: '' @ join '', '' flaggedCategories
                           else ''Inappropriate content detected''))
                else ''Inappropriate content detected'')))"

text \<open>
  The later attempts either flag, with the reason they set, or leave the variables as
  they are: \<open>Some reason\<close> or \<open>None\<close>.

  Second attempt (GPT-4o): \<open>content.split(':')[1]\<close> is the text between the first and
  the second colon.
\<close>

definition secondaryCheck :: "string option option \<Rightarrow> string option" where
  "secondaryCheck response =
     (case response of
        None \<Rightarrow> None
      | Some c \<Rightarrow>
          (let content = (case c of None \<Rightarrow> [] | Some x \<Rightarrow> trim x) in
           if includes_str (toUpperCase content) ''INAPPROPRIATE'' then
             (if CHR '':'' \<in> set content then
                (let reasonPart =
                       trim (takeWhile (\<lambda>x. x \<noteq> CHR '':'') (tl (dropWhile (\<lambda>x. x \<noteq> CHR '':'') content)))
                 in if reasonPart \<noteq> [] then Some (''Secondary detection: '' @ reasonPart)
                    else Some ''Secondary detection: Inappropriate content'')
              else Some ''Secondary detection: Inappropriate content'')
           else None))"

text \<open>
  Third attempt: the explicit terms, their upper case and the base64 of both, looked
  for in the lower-cased base64 of the image. (\<open>Buffer.from(term)\<close> is the UTF-8 of the
  term, for these ASCII terms the characters themselves.)
\<close>

definition patternCheck :: "string \<Rightarrow> string option" where
  "patternCheck base64Image =
     (let base64Lower = toLowerCase base64Image;
          foundExplicitTerms =
            filter (\<lambda>w. list_ex (\<lambda>variation. includes_str base64Lower (toLowerCase variation))
                            [w, toUpperCase w, base64 w, base64 (toUpperCase w)])
                   explicitTerms
      in if length foundExplicitTerms > 0
         then Some (''Pattern matching: Found explicit terms ('' @ join '', '' foundExplicitTerms @ '')'')
         else None)"

text \<open>Fourth attempt (OCR with GPT-4o).\<close>

definition ocrCheck :: "string option option \<Rightarrow> string option" where
  "ocrCheck response =
     (case response of
        None \<Rightarrow> None
      | Some c \<Rightarrow>
          (let extractedText = (case c of None \<Rightarrow> [] | Some x \<Rightarrow> toLowerCase (trim x));
               foundExplicitTerms = filter (\<lambda>w. includes_str extractedText (toLowerCase w)) explicitTerms
           in if length foundExplicitTerms > 0
              then Some (''OCR detection: Found explicit terms ('' @ join '', '' foundExplicitTerms @ '')'')
              else None))"

text \<open>Fifth attempt: the fixed patterns, looked for in the base64 of the image as it is.\<close>

definition directCheck :: "string \<Rightarrow> string option" where
  "directCheck base64Image =
     (if list_ex (\<lambda>pattern. includes_str base64Image pattern) slut_patterns
      then Some ''Direct pattern matching: Detected explicit text''
      else None)"

text \<open>
  \<^verbatim>\<open>if (!isInappropriate) { ... }\<close> around an attempt: when the flag is already set the
  block is not entered; otherwise the stage is evaluated (and recorded in the trace of
  evaluated stages) and, if it flags, sets the flag and the reason.
\<close>

definition attempt :: "stage \<Rightarrow> string option \<Rightarrow> bool \<times> string \<times> stage list \<Rightarrow> bool \<times> string \<times> stage list" where
  "attempt st outcome v =
     (case v of
        (isInapp, rsn, trace) \<Rightarrow>
          if isInapp then v
          else (case outcome of
                  None \<Rightarrow> (False, rsn, trace @ [st])
                | Some r \<Rightarrow> (True, r, trace @ [st])))"

definition notFlagged :: moderationVerdict where
  "notFlagged = \<lparr>isInappropriate = False, reason = None\<rparr>"

text \<open>
  \<open>moderateImage\<close>: the verdict, and the stages that were evaluated, in order. (Removing
  the temporary file at the end has no influence on either and is left out.)
\<close>

definition moderateImage :: "openai_env \<Rightarrow> image_input \<Rightarrow> moderationVerdict \<times> stage list" where
  "moderateImage env input =
     (case input of
        NotABuffer \<Rightarrow> (notFlagged, [])
      | Buffer imageBuffer \<Rightarrow>
          if apiKey env = None \<or> apiKey env = Some [] then (notFlagged, [])
          else if \<not> tempDirExists env \<and> \<not> mkdirOk env then (notFlagged, [])
          else (case prepareImage env imageBuffer of
                  None \<Rightarrow> (notFlagged, [])
                | Some resizedImageBuffer \<Rightarrow>
                    (let base64Image = base64 resizedImageBuffer;
                         v1 = (case primaryCheck (moderationResponse env) of
                                 (f, r) \<Rightarrow> (f, r, [Primary]));
                         v2 = attempt Secondary (secondaryCheck (secondaryResponse env)) v1;
                         v3 = attempt PatternMatching (patternCheck base64Image) v2;
                         v4 = attempt OCR (ocrCheck (ocrResponse env)) v3;
                         v5 = attempt DirectPatterns (directCheck base64Image) v4
                     in case v5 of
                          (isInapp, rsn, trace) \<Rightarrow>
                            (\<lparr>isInappropriate = isInapp,
                              reason = (if isInapp then Some rsn else None)\<rparr>, trace))))"

section \<open>The cascade as the specification describes it\<close>

text \<open>
  What each of the five stages answers when it is evaluated on the prepared image:
  \<open>Some reason\<close> when it flags, \<open>None\<close> when it does not (or fails).
\<close>

definition stageOutcomes :: "openai_env \<Rightarrow> string \<Rightarrow> (stage \<times> string option) list" where
  "stageOutcomes env base64Image =
     [(Primary, case primaryCheck (moderationResponse env) of (f, r) \<Rightarrow> if f then Some r else None),
      (Secondary, secondaryCheck (secondaryResponse env)),
      (PatternMatching, patternCheck base64Image),
      (OCR, ocrCheck (ocrResponse env)),
      (DirectPatterns, directCheck base64Image)]"

text \<open>
  "Evaluated strictly in order; the first stage to report flagged wins and later stages
  are skipped": the stages evaluated, and the reason of the one that flagged.
\<close>

fun spec_cascade :: "(stage \<times> string option) list \<Rightarrow> stage list \<times> string option" where
  "spec_cascade [] = ([], None)"
| "spec_cascade ((st, Some r) # rest) = ([st], Some r)"
| "spec_cascade ((st, None) # rest) = (case spec_cascade rest of (tr, r) \<Rightarrow> (st # tr, r))"

text \<open>
  The names of the categories that a moderation result flags, in the order of the
  answer: \<open>Object.entries(categories).filter(([_, value]) => value === true).map(([key]) => key)\<close>,
  and none when the result carries no categories.
\<close>

definition flaggedCategoryNames :: "moderationResult \<Rightarrow> string list" where
  "flaggedCategoryNames result =
     (case categories result of None \<Rightarrow> [] | Some cats \<Rightarrow> map fst (filter snd cats))"

text \<open>
  The label that a stage writes in front of the reason it sets. The four later stages
  each write their own; the primary classification writes none.
\<close>

definition stageLabel :: "stage \<Rightarrow> string" where
  "stageLabel st =
     (case st of
        Primary \<Rightarrow> []
      | Secondary \<Rightarrow> ''Secondary detection: ''
      | PatternMatching \<Rightarrow> ''Pattern matching: ''
      | OCR \<Rightarrow> ''OCR detection: ''
      | DirectPatterns \<Rightarrow> ''Direct pattern matching: '')"

section \<open>Concrete inputs\<close>

definition emptyDatabase :: database where
  "emptyDatabase =
     \<lparr>groupSettings = Some Map.empty, abusiveWordsCollection = Some [],
      userWarningsAcrossSessions = Some Map.empty, alertMessages = Some []\<rparr>"

text \<open>Scenario 3 of the specification, with a concrete last-sent time.\<close>

definition scenario3_alert :: alertMessage where
  "scenario3_alert =
     \<lparr>alert_chatId = 7, message = ''Remember the rules'', interval = 10, lastSent = 1700000000000\<rparr>"

definition scenario3_db :: database where
  "scenario3_db = emptyDatabase\<lparr>alertMessages := Some [scenario3_alert]\<rparr>"

text \<open>
  A call of \<open>moderateImage\<close> in which every remote stage would flag: the moderation
  request flags two categories, the vision model answers "INAPPROPRIATE: nudity" and
  the transcription contains an explicit term.
\<close>

definition sample_env :: openai_env where
  "sample_env =
     \<lparr>apiKey = Some ''sk-test'', tempDirExists = True, mkdirOk = True,
      sharpOutput = Some ''a picture of a slut'', writeResizedOk = True, writeOriginalOk = True,
      moderationResponse =
        Some [\<lparr>flagged = True,
               categories = Some [(''sexual'', True), (''hate'', False), (''violence'', True)]\<rparr>],
      secondaryResponse = Some (Some ''INAPPROPRIATE: nudity''),
      ocrResponse = Some (Some ''sex'')\<rparr>"

text \<open>The same call, with a moderation answer that flags without naming a category.\<close>

definition uncategorised_env :: openai_env where
  "uncategorised_env = sample_env\<lparr>moderationResponse := Some [\<lparr>flagged = True, categories = None\<rparr>]\<rparr>"

text \<open>The same call, with a moderation answer that does not flag.\<close>

definition unflagged_env :: openai_env where
  "unflagged_env = sample_env\<lparr>moderationResponse := Some [\<lparr>flagged = False, categories = None\<rparr>]\<rparr>"

text \<open>The bot as it starts on an empty database, with the default word list.\<close>

definition sample_bot :: bot where
  "sample_bot =
     \<lparr>abusiveWords = [''fuck'', ''shit'', ''asshole'', ''bitch'', ''dick'', ''pussy'', ''cunt'',
                      ''whore'', ''slut'', ''bastard''],
      bot_db = emptyDatabase, session = Map.empty\<rparr>"

section \<open>Notions used to state the escalation properties\<close>

text \<open>
  The guards in front of the escalation block of the text handler: a group chat, a
  sender, text moderation enabled, a flagged text, the bot entitled to moderate, and a
  sender who is not an administrator.
\<close>

definition reachesEscalation ::
  "(string \<Rightarrow> (string \<Rightarrow> bool) option) \<Rightarrow> bot \<Rightarrow> update \<Rightarrow> int \<Rightarrow> bool" where
  "reachesEscalation engine b ctx userId =
     (\<not> ctx_private ctx \<and> ctx_fromId ctx = Some userId \<and> userId \<noteq> 0
      \<and> abusiveWordsEnabled (getGroupSettings (bot_db b) (ctx_chatId ctx))
      \<and> containsAbusiveWord engine b (Str (ctx_text ctx)) (Some (ctx_chatId ctx))
      \<and> isBotAdmin (botMember ctx) \<and> \<not> isAdmin (userMember ctx))"

text \<open>The cooldown test of \<open>warnUser\<close> on the state before the update.\<close>

definition cooldownOver :: "bot \<Rightarrow> update \<Rightarrow> int \<Rightarrow> int \<Rightarrow> bool" where
  "cooldownOver b ctx userId chatId =
     (lastWarning (sessionOf b (userId, chatId)) = 0
      \<or> clock ctx - lastWarning (sessionOf b (userId, chatId)) > 60000)"

text \<open>The stored violation count of a pair, 0 when there is no record.\<close>

definition storedCount :: "bot \<Rightarrow> int \<Rightarrow> int \<Rightarrow> int" where
  "storedCount b userId chatId =
     (case getUserWarningsAcrossSessions (bot_db b) userId chatId of None \<Rightarrow> 0 | Some n \<Rightarrow> n)"

text \<open>
  The number that the escalation block computes for a violation of the pair, on which
  it decides between warning and ban: the \<open>warningCount\<close> of the handler.
\<close>

definition violationCount :: "bot \<Rightarrow> int \<Rightarrow> int \<Rightarrow> int" where
  "violationCount b userId chatId = fst (countViolation (initSession b (userId, chatId)) userId chatId)"

text \<open>A warning message that went out.\<close>

fun isSentWarning :: "effect \<Rightarrow> bool" where
  "isSentWarning (Reply (WarningNotice what n) ok) = ok"
| "isSentWarning e = False"

text \<open>
  The effects of the three outcomes of the ban block of the text handler, those of the
  ban block of \<open>handleInappropriateContent\<close> (which sends no failure notice), and
  the effects of the attempt to delete the message.
\<close>

definition textBan :: "update \<Rightarrow> effect list" where
  "textBan ctx =
     (if \<not> banChatMemberOk ctx
        then [BanChatMember False, Reply BanFailedNotice (replyOk ctx BanFailedNotice)]
      else if \<not> replyOk ctx (BanNotice ''text'')
        then [BanChatMember True, Reply (BanNotice ''text'') False,
              Reply BanFailedNotice (replyOk ctx BanFailedNotice)]
      else [BanChatMember True, Reply (BanNotice ''text'') True])"

definition mediaBan :: "update \<Rightarrow> string \<Rightarrow> effect list" where
  "mediaBan ctx contentType =
     (if \<not> banChatMemberOk ctx then [BanChatMember False]
      else if \<not> replyOk ctx (BanNotice contentType)
        then [BanChatMember True, Reply (BanNotice contentType) False]
      else [BanChatMember True, Reply (BanNotice contentType) True])"

definition deletion :: "update \<Rightarrow> effect list" where
  "deletion ctx = (if deleteMessageOk ctx then [DeleteMessage True]
                   else [DeleteMessage False, Reply DeleteFailedNotice (replyOk ctx DeleteFailedNotice)])"

section \<open>Notions used to state the word matcher property\<close>

text \<open>
  A character that a pattern reads as itself: no backslash, no quantifier, no wildcard
  and none of the other syntax characters.
\<close>

definition isPlainChar :: "char \<Rightarrow> bool" where
  "isPlainChar c = (c \<noteq> CHR 0x5C \<and> \<not> isOtherSyntaxChar c \<and> \<not> isQuantifierChar c \<and> c \<noteq> CHR ''.'')"

text \<open>
  The word occurs in the text with a word boundary (in the sense of \<^verbatim>\<open>\b\<close>) on each
  side: the text splits into a part before, the word and a part after, and on each
  side of the word exactly one of the two neighbouring characters is a word character.
\<close>

definition occursAtWordBoundary :: "string \<Rightarrow> string \<Rightarrow> bool" where
  "occursAtWordBoundary w s =
     (\<exists>pre post. s = pre @ w @ post
        \<and> ((pre \<noteq> [] \<and> isWordChar (last pre)) \<noteq> (w @ post \<noteq> [] \<and> isWordChar (hd (w @ post))))
        \<and> ((pre @ w \<noteq> [] \<and> isWordChar (last (pre @ w))) \<noteq> (post \<noteq> [] \<and> isWordChar (hd post))))"

text \<open>A bot whose database holds one extra word for group 7 and one for group 8.\<close>

definition group7_bot :: bot where
  "group7_bot =
     sample_bot\<lparr>bot_db := emptyDatabase\<lparr>abusiveWordsCollection := Some [(7, ''idiot''), (8, ''moron'')]\<rparr>\<rparr>"

text \<open>A bot whose word list holds a word written with an asterisk.\<close>

definition asterisk_bot :: bot where
  "asterisk_bot = sample_bot\<lparr>abusiveWords := [''sh*t'']\<rparr>"

text \<open>
  An update from user 42 in group 7: the bot is an administrator with both rights, the
  sender an ordinary member, banning and replying succeed; the text, the clock and the
  outcome of \<open>deleteMessage\<close> are given.
\<close>

definition group_update :: "string \<Rightarrow> int \<Rightarrow> bool \<Rightarrow> update" where
  "group_update t now deleted =
     \<lparr>ctx_private = False, ctx_text = t, ctx_fromId = Some 42, ctx_chatId = 7, clock = now,
      botMember = Some \<lparr>status = Administrator, can_delete_messages = True, can_restrict_members = True\<rparr>,
      userMember = Some \<lparr>status = Member, can_delete_messages = False, can_restrict_members = False\<rparr>,
      deleteMessageOk = deleted, banChatMemberOk = True, replyOk = (\<lambda>r. True)\<rparr>"

text \<open>Four abusive messages, 61 seconds apart, handled one after the other.\<close>

definition ladder_update :: "int \<Rightarrow> update" where
  "ladder_update k = group_update ''you FUCK off'' (1700000000000 + k * 61000) True"

definition ladder1 :: "bot \<times> effect list" where
  "ladder1 = on_message_text (\<lambda>p. None) sample_bot (ladder_update 0)"

definition ladder2 :: "bot \<times> effect list" where
  "ladder2 = on_message_text (\<lambda>p. None) (fst ladder1) (ladder_update 1)"



text \<open>Two abusive messages 30 seconds apart.\<close>

definition burst1 :: "bot \<times> effect list" where
  "burst1 = on_message_text (\<lambda>p. None) sample_bot (group_update ''SHIT'' 1700000000000 True)"

definition burst2 :: "bot \<times> effect list" where
  "burst2 = on_message_text (\<lambda>p. None) (fst burst1) (group_update ''more shit!'' 1700000030000 True)"

text \<open>An abusive message that the bot fails to delete.\<close>

definition failed_delete :: "bot \<times> effect list" where
  "failed_delete =
     on_message_text (\<lambda>p. None) sample_bot (group_update ''you FUCK off'' 1700000000000 False)"

text \<open>A third violation, after \<open>ladder2\<close>, whose message the bot fails to delete.\<close>

definition failed_delete3 :: "bot \<times> effect list" where
  "failed_delete3 =
     on_message_text (\<lambda>p. None) (fst ladder2) (group_update ''you FUCK off'' 1700000122000 False)"





text \<open>
  The bot while the database is unreachable (the warnings collection is not available),
  and three abusive messages of user 42 in group 7 handled in that state: the second
  30 seconds after the first, the third 61 seconds after the second.
\<close>

definition offline_bot :: bot where
  "offline_bot = sample_bot\<lparr>bot_db := emptyDatabase\<lparr>userWarningsAcrossSessions := None\<rparr>\<rparr>"

definition offline1 :: "bot \<times> effect list" where
  "offline1 = on_message_text (\<lambda>p. None) offline_bot (group_update ''SHIT'' 1700000000000 True)"

definition offline2 :: "bot \<times> effect list" where
  "offline2 = on_message_text (\<lambda>p. None) (fst offline1) (group_update ''more shit!'' 1700000030000 True)"

definition offline3 :: "bot \<times> effect list" where
  "offline3 = on_message_text (\<lambda>p. None) (fst offline2) (group_update ''shit again'' 1700000091000 True)"

text \<open>The same abusive message, sent by an administrator of the group.\<close>

definition admin_update :: update where
  "admin_update = (group_update ''you FUCK off'' 1700000000000 True)
     \<lparr>userMember := Some \<lparr>status = Administrator, can_delete_messages = True, can_restrict_members = True\<rparr>\<rparr>"

section \<open>Alert scheduler\<close>

text \<open>
  C1, as the code has it. A stored alert with interval \<open>I\<close> minutes and last-sent time
  \<open>T\<close> is selected by the due-check exactly when \<open>now - T > I * 60000\<close>: the comparison
  is strict. At \<open>now = T + I * 60000\<close> the alert is not selected, one millisecond later
  it is, and a record that was never sent (\<open>T = 0\<close>) is selected exactly when the clock
  exceeds \<open>I * 60000\<close>.
\<close>

theorem getAlertMessagesToSend_due:
  assumes "alertMessages db = Some docs" and "d \<in> set docs"
  shows "(d \<in> set (getAlertMessagesToSend db now)) = (now - lastSent d > interval d * 60000)
       \<and> d \<notin> set (getAlertMessagesToSend db (lastSent d + interval d * 60000))
       \<and> d \<in> set (getAlertMessagesToSend db (lastSent d + interval d * 60000 + 1))
       \<and> (if lastSent d = 0
           then (d \<in> set (getAlertMessagesToSend db now)) = (now > interval d * 60000)
           else True)"
  using assms by (auto simp: getAlertMessagesToSend_def)

text \<open>Scenario 3 on the code: not due one millisecond early, not due on the dot, due one millisecond late.\<close>

theorem getAlertMessagesToSend_due_witness:
  "scenario3_alert \<notin> set (getAlertMessagesToSend scenario3_db (1700000000000 + 10 * 60000 - 1))
   \<and> scenario3_alert \<notin> set (getAlertMessagesToSend scenario3_db (1700000000000 + 10 * 60000))
   \<and> scenario3_alert \<in> set (getAlertMessagesToSend scenario3_db (1700000000000 + 10 * 60000 + 1))"
proof -
  have h1: "alertMessages scenario3_db = Some [scenario3_alert]"
    by (simp add: scenario3_db_def)
  have h2: "scenario3_alert \<in> set [scenario3_alert]" by simp
  have t: "lastSent scenario3_alert = 1700000000000" "interval scenario3_alert = 10"
    by (simp_all add: scenario3_alert_def)
  show ?thesis
    using getAlertMessagesToSend_due [OF h1 h2, of "1700000000000 + 10 * 60000 - 1"] t
    by simp
qed

text \<open>
  C1 as stated fails at the boundary: with \<open>now = T + I * 60000\<close> the condition
  \<open>now - T \<ge> I * 60000\<close> of the claim holds, and the alert is not selected.
\<close>

theorem due_at_interval_counterexample:
  "(1700000000000 + 10 * 60000) - lastSent scenario3_alert \<ge> interval scenario3_alert * 60000
   \<and> scenario3_alert \<notin> set (getAlertMessagesToSend scenario3_db (1700000000000 + 10 * 60000))"
  by (simp add: getAlertMessagesToSend_def scenario3_db_def scenario3_alert_def)

text \<open>
  An alert that has just been set (\<open>lastSent = 0\<close>) is selected as soon as the clock
  exceeds its interval, which every real clock value does.
\<close>

lemma upsertAlert_member: "a \<in> set (upsertAlert a docs)"
  by (induction docs) auto

theorem new_alert_due:
  assumes "alertMessages db = Some docs"
  shows "(\<lparr>alert_chatId = chatId, message = msg, interval = minutes, lastSent = 0\<rparr>
            \<in> set (getAlertMessagesToSend (snd (setAlertMessage db chatId msg minutes)) now))
         = (now > minutes * 60000)"
  using assms
  by (simp add: setAlertMessage_def getAlertMessagesToSend_def upsertAlert_member)

theorem new_alert_due_witness:
  "\<lparr>alert_chatId = 7, message = ''Remember the rules'', interval = 60, lastSent = 0\<rparr>
     \<in> set (getAlertMessagesToSend (snd (setAlertMessage emptyDatabase 7 ''Remember the rules'' 60)) 1700000000000)"
proof -
  have "alertMessages emptyDatabase = Some []" by (simp add: emptyDatabase_def)
  from new_alert_due [OF this, of 7 "''Remember the rules''" 60 1700000000000]
  show ?thesis by simp
qed

text \<open>
  After \<open>updateAlertMessageLastSent\<close> has stamped the alert of a group with the time
  \<open>t\<close>, that alert is only selected again at a time later than
  \<open>t + interval * 60000\<close> (one document per group, as the unique index has it).
\<close>

lemma stampAlert_lastSent:
  assumes "distinct (map alert_chatId docs)" and "d \<in> set (stampAlert chatId t docs)"
    and "alert_chatId d = chatId"
  shows "lastSent d = t \<and> (\<exists>d0\<in>set docs. interval d = interval d0 \<and> alert_chatId d0 = chatId)"
  using assms
proof (induction docs)
  case Nil
  then show ?case by simp
next
  case (Cons x docs)
  show ?case
  proof (cases "alert_chatId x = chatId")
    case True
    with Cons.prems have "d = x\<lparr>lastSent := t\<rparr> \<or> d \<in> set docs" by simp
    moreover have "d \<notin> set docs"
      using Cons.prems(1,3) True by (auto simp: image_iff)
    ultimately show ?thesis using True by auto
  next
    case False
    with Cons.prems have "d \<in> set (stampAlert chatId t docs)" by auto
    with Cons.IH Cons.prems show ?thesis by auto
  qed
qed

theorem sent_alert_not_due:
  assumes "alertMessages db = Some docs" and "distinct (map alert_chatId docs)"
    and "d \<in> set (getAlertMessagesToSend (snd (updateAlertMessageLastSent db chatId t)) now)"
    and "alert_chatId d = chatId"
  shows "now > t + interval d * 60000"
proof -
  have "d \<in> set (stampAlert chatId t docs)" and due: "now > lastSent d + interval d * 60000"
    using assms(1,3) by (simp_all add: updateAlertMessageLastSent_def getAlertMessagesToSend_def)
  then have "lastSent d = t" using stampAlert_lastSent [OF assms(2) _ assms(4)] by blast
  with due show ?thesis by simp
qed

theorem sent_alert_not_due_witness:
  "getAlertMessagesToSend (snd (updateAlertMessageLastSent scenario3_db 7 1700000600001)) (1700000600001 + 10 * 60000) = []
   \<and> getAlertMessagesToSend (snd (updateAlertMessageLastSent scenario3_db 7 1700000600001)) (1700000600001 + 10 * 60000 + 1)
       = [scenario3_alert\<lparr>lastSent := 1700000600001\<rparr>]"
proof -
  have a: "alertMessages scenario3_db = Some [scenario3_alert]" by (simp add: scenario3_db_def)
  have b: "distinct (map alert_chatId [scenario3_alert])" by simp
  have c: "alert_chatId (scenario3_alert\<lparr>lastSent := 1700000600001\<rparr>) = 7" by (simp add: scenario3_alert_def)
  have late: "getAlertMessagesToSend (snd (updateAlertMessageLastSent scenario3_db 7 1700000600001)) (1700000600001 + 10 * 60000 + 1)
       = [scenario3_alert\<lparr>lastSent := 1700000600001\<rparr>]"
    by (simp add: updateAlertMessageLastSent_def getAlertMessagesToSend_def scenario3_db_def scenario3_alert_def)
  have "d \<notin> set (getAlertMessagesToSend (snd (updateAlertMessageLastSent scenario3_db 7 1700000600001)) (1700000600001 + 10 * 60000))" for d
  proof
    assume d: "d \<in> set (getAlertMessagesToSend (snd (updateAlertMessageLastSent scenario3_db 7 1700000600001)) (1700000600001 + 10 * 60000))"
    then have e: "d = scenario3_alert\<lparr>lastSent := 1700000600001\<rparr>"
      by (auto simp: updateAlertMessageLastSent_def getAlertMessagesToSend_def scenario3_db_def scenario3_alert_def split: if_splits)
    then have "alert_chatId d = 7" using c by simp
    from sent_alert_not_due [OF a b d this] e show False by (simp add: scenario3_alert_def)
  qed
  then have "getAlertMessagesToSend (snd (updateAlertMessageLastSent scenario3_db 7 1700000600001)) (1700000600001 + 10 * 60000) = []"
    by (meson last_in_set)
  with late show ?thesis by simp
qed

section \<open>Image moderation cascade\<close>

lemma attempt_simps:
  "attempt st outcome (True, r, tr) = (True, r, tr)"
  "attempt st None (False, r, tr) = (False, r, tr @ [st])"
  "attempt st (Some r') (False, r, tr) = (True, r', tr @ [st])"
  by (simp_all add: attempt_def)

text \<open>Once the image is prepared, the function is the cascade over the five stage outcomes.\<close>

lemma moderateImage_cascade:
  assumes "apiKey env = Some k" "k \<noteq> []" "tempDirExists env \<or> mkdirOk env"
    "prepareImage env imageBuffer = Some resized"
  shows "moderateImage env (Buffer imageBuffer) =
     (case spec_cascade (stageOutcomes env (base64 resized)) of
        (tr, r) \<Rightarrow> (\<lparr>isInappropriate = (r \<noteq> None), reason = r\<rparr>, tr))"
proof -
  obtain f1 r1 where p: "primaryCheck (moderationResponse env) = (f1, r1)"
    by (cases "primaryCheck (moderationResponse env)")
  show ?thesis
    using assms p
    by (cases f1; cases "secondaryCheck (secondaryResponse env)"; cases "patternCheck (base64 resized)";
        cases "ocrCheck (ocrResponse env)"; cases "directCheck (base64 resized)")
       (auto simp: moderateImage_def stageOutcomes_def attempt_simps Let_def)
qed

text \<open>Every way of giving up before the cascade yields the bare not-flagged verdict.\<close>

lemma moderateImage_gives_up:
  assumes "input = NotABuffer \<or> apiKey env = None \<or> apiKey env = Some []
           \<or> (\<not> tempDirExists env \<and> \<not> mkdirOk env)
           \<or> (\<exists>buf. input = Buffer buf \<and> prepareImage env buf = None)"
  shows "moderateImage env input = (\<lparr>isInappropriate = False, reason = None\<rparr>, [])"
  using assms by (cases input) (auto simp: moderateImage_def notFlagged_def)

lemma sample_env_prepared:
  "apiKey sample_env = Some ''sk-test''" "''sk-test'' \<noteq> []"
  "tempDirExists sample_env \<or> mkdirOk sample_env"
  "prepareImage sample_env ''raw bytes'' = Some ''a picture of a slut''"
  by (simp_all add: sample_env_def prepareImage_def)

text \<open>
  C6. Whenever classification of a prepared image starts, the verdict and the stages
  evaluated are those of the cascade of the specification: the stages are evaluated in
  order up to and including the first one that flags, that stage's reason is the
  verdict's, and no later stage is evaluated. In particular, when the primary
  classification flags, it is the only stage evaluated.
\<close>

theorem moderateImage_short_circuit:
  assumes "apiKey env = Some k" and "k \<noteq> []" and "tempDirExists env \<or> mkdirOk env"
    and "prepareImage env imageBuffer = Some resized"
  shows "moderateImage env (Buffer imageBuffer) =
           (case spec_cascade (stageOutcomes env (base64 resized)) of
              (tr, r) \<Rightarrow> (\<lparr>isInappropriate = (r \<noteq> None), reason = r\<rparr>, tr))
       \<and> (fst (primaryCheck (moderationResponse env)) \<longrightarrow>
            snd (moderateImage env (Buffer imageBuffer)) = [Primary])"
proof -
  have eq: "moderateImage env (Buffer imageBuffer) =
           (case spec_cascade (stageOutcomes env (base64 resized)) of
              (tr, r) \<Rightarrow> (\<lparr>isInappropriate = (r \<noteq> None), reason = r\<rparr>, tr))"
    by (rule moderateImage_cascade [OF assms])
  have "snd (moderateImage env (Buffer imageBuffer)) = [Primary]"
    if "fst (primaryCheck (moderationResponse env))"
    using that unfolding eq
    by (cases "primaryCheck (moderationResponse env)") (simp add: stageOutcomes_def)
  with eq show ?thesis by blast
qed

text \<open>
  On the sample call the primary stage flags and is the only stage evaluated, although
  the secondary pass and the transcription scan would both have flagged.
\<close>

theorem moderateImage_short_circuit_witness:
  "moderateImage sample_env (Buffer ''raw bytes'') =
     (\<lparr>isInappropriate = True, reason = Some ''Flagged categories: sexual, violence''\<rparr>, [Primary])
   \<and> secondaryCheck (secondaryResponse sample_env) = Some ''Secondary detection: nudity''
   \<and> ocrCheck (ocrResponse sample_env) = Some ''OCR detection: Found explicit terms (sex)''"
proof -
  have p: "primaryCheck (moderationResponse sample_env) = (True, ''Flagged categories: sexual, violence'')"
    by (simp add: sample_env_def primaryCheck_def)
  have s: "secondaryCheck (secondaryResponse sample_env) = Some ''Secondary detection: nudity''"
    by code_simp
  have q: "ocrCheck (ocrResponse sample_env) = Some ''OCR detection: Found explicit terms (sex)''"
    by code_simp
  from moderateImage_short_circuit [OF sample_env_prepared] p
  have "moderateImage sample_env (Buffer ''raw bytes'') =
     (\<lparr>isInappropriate = True, reason = Some ''Flagged categories: sexual, violence''\<rparr>, [Primary])"
    by (simp add: stageOutcomes_def)
  with s q show ?thesis by simp
qed

lemma primaryCheck_flagged:
  assumes "primaryCheck response = (True, r)"
  shows "\<exists>result rest. response = Some (result # rest) \<and> flagged result
           \<and> r = (if flaggedCategoryNames result = [] then ''Inappropriate content detected''
                  else ''Flagged categories: '' @ join '', '' (flaggedCategoryNames result))"
  using assms
  by (auto simp: primaryCheck_def flaggedCategoryNames_def Let_def
      split: option.splits list.splits if_splits)

lemma secondaryCheck_reason:
  "secondaryCheck response = Some r \<Longrightarrow> \<exists>x. r = ''Secondary detection: '' @ x"
  by (auto simp: secondaryCheck_def Let_def split: option.splits if_splits)

lemma patternCheck_reason:
  "patternCheck b = Some r \<Longrightarrow> \<exists>x. r = ''Pattern matching: '' @ x"
  by (auto simp: patternCheck_def Let_def split: if_splits)

lemma ocrCheck_reason:
  "ocrCheck response = Some r \<Longrightarrow> \<exists>x. r = ''OCR detection: '' @ x"
  by (auto simp: ocrCheck_def Let_def split: option.splits if_splits)

lemma directCheck_reason:
  "directCheck b = Some r \<Longrightarrow> \<exists>x. r = ''Direct pattern matching: '' @ x"
  by (auto simp: directCheck_def split: if_splits)

lemma stageOutcomes_label:
  assumes "(st, Some r) \<in> set (stageOutcomes env b)"
  shows "\<exists>detail. r = stageLabel st @ detail"
  using assms secondaryCheck_reason patternCheck_reason ocrCheck_reason directCheck_reason
  by (auto simp: stageOutcomes_def stageLabel_def split: prod.splits if_splits)

lemma stageOutcomes_primary:
  assumes "(Primary, Some r) \<in> set (stageOutcomes env b)"
  shows "primaryCheck (moderationResponse env) = (True, r)"
  using assms by (auto simp: stageOutcomes_def split: prod.splits if_splits)

lemma spec_cascade_reason:
  assumes "spec_cascade outs = (tr, Some r)"
  shows "tr \<noteq> [] \<and> (last tr, Some r) \<in> set outs"
  using assms
proof (induction outs arbitrary: tr rule: spec_cascade.induct)
  case 1
  then show ?case by simp
next
  case (2 st r' rest)
  then show ?case by auto
next
  case (3 st rest)
  obtain tr' where c: "spec_cascade rest = (tr', Some r)" and t: "tr = st # tr'"
    using "3.prems" by (auto split: prod.splits)
  from "3.IH" [OF c] t show ?case by auto
qed

text \<open>
  C8, as the code has it. The verdict carries a reason exactly when it is flagged. When
  it is flagged, the image was prepared and at least one stage was evaluated, and the
  reason is the one computed by the stage that flagged, which is the last stage
  evaluated. For the secondary pass, the pattern scan, the transcription scan and the
  direct patterns that reason starts with the label of the stage ("Secondary
  detection: ", "Pattern matching: ", "OCR detection: ", "Direct pattern matching: ").
  For the primary classification it carries no label: it is "Flagged categories: "
  followed by the names of the categories that the first moderation result flags,
  joined by ", ", or the bare text "Inappropriate content detected" when the result
  flags without naming a category.
\<close>

theorem moderateImage_reason:
  fixes env input
  defines "V \<equiv> fst (moderateImage env input)" and "tr \<equiv> snd (moderateImage env input)"
  shows "(reason V = None) = (\<not> isInappropriate V)
       \<and> (isInappropriate V \<longrightarrow>
            tr \<noteq> []
          \<and> (\<exists>imageBuffer resized r.
                input = Buffer imageBuffer \<and> prepareImage env imageBuffer = Some resized
              \<and> reason V = Some r
              \<and> (last tr, Some r) \<in> set (stageOutcomes env (base64 resized))
              \<and> (\<exists>detail. r = stageLabel (last tr) @ detail)
              \<and> (last tr = Primary \<longrightarrow>
                   (\<exists>result rest. moderationResponse env = Some (result # rest) \<and> flagged result
                      \<and> r = (if flaggedCategoryNames result = [] then ''Inappropriate content detected''
                             else ''Flagged categories: '' @ join '', '' (flaggedCategoryNames result))))))"
proof (cases "input = NotABuffer \<or> apiKey env = None \<or> apiKey env = Some []
           \<or> (\<not> tempDirExists env \<and> \<not> mkdirOk env)
           \<or> (\<exists>buf. input = Buffer buf \<and> prepareImage env buf = None)")
  case True
  then show ?thesis unfolding V_def tr_def by (simp add: moderateImage_gives_up)
next
  case False
  then obtain buf k resized where i: "input = Buffer buf" and k: "apiKey env = Some k" "k \<noteq> []"
    and t: "tempDirExists env \<or> mkdirOk env" and p: "prepareImage env buf = Some resized"
    by (cases input; cases "apiKey env") auto
  obtain tr' r where c: "spec_cascade (stageOutcomes env (base64 resized)) = (tr', r)"
    by (cases "spec_cascade (stageOutcomes env (base64 resized))")
  have m: "moderateImage env input = (\<lparr>isInappropriate = (r \<noteq> None), reason = r\<rparr>, tr')"
    using moderateImage_cascade [OF k t p] c i by simp
  show ?thesis
  proof (cases r)
    case None
    with m show ?thesis unfolding V_def tr_def by simp
  next
    case (Some x)
    with c have ne: "tr' \<noteq> []"
      and mem: "(last tr', Some x) \<in> set (stageOutcomes env (base64 resized))"
      using spec_cascade_reason by blast+
    have lab: "\<exists>detail. x = stageLabel (last tr') @ detail"
      using mem by (rule stageOutcomes_label)
    have prim: "\<exists>result rest. moderationResponse env = Some (result # rest) \<and> flagged result
                  \<and> x = (if flaggedCategoryNames result = [] then ''Inappropriate content detected''
                         else ''Flagged categories: '' @ join '', '' (flaggedCategoryNames result))"
      if "last tr' = Primary"
    proof -
      from mem that have "primaryCheck (moderationResponse env) = (True, x)"
        by (simp add: stageOutcomes_primary)
      then show ?thesis by (rule primaryCheck_flagged)
    qed
    have "\<exists>imageBuffer resized r.
            input = Buffer imageBuffer \<and> prepareImage env imageBuffer = Some resized
          \<and> Some x = Some r
          \<and> (last tr', Some r) \<in> set (stageOutcomes env (base64 resized))
          \<and> (\<exists>detail. r = stageLabel (last tr') @ detail)
          \<and> (last tr' = Primary \<longrightarrow>
               (\<exists>result rest. moderationResponse env = Some (result # rest) \<and> flagged result
                  \<and> r = (if flaggedCategoryNames result = [] then ''Inappropriate content detected''
                         else ''Flagged categories: '' @ join '', '' (flaggedCategoryNames result))))"
      using i p mem lab prim by blast
    with m Some ne show ?thesis unfolding V_def tr_def by simp
  qed
qed

text \<open>
  On the sample call the primary classification flags and the reason lists the two
  flagged categories, with no stage label. When the moderation answer does not flag,
  the secondary pass is the stage that flags and the reason is the one it computed
  from the answer of the vision model, behind its label.
\<close>

theorem moderateImage_reason_witness:
  "moderateImage sample_env (Buffer ''raw bytes'') =
     (\<lparr>isInappropriate = True, reason = Some ''Flagged categories: sexual, violence''\<rparr>, [Primary])
   \<and> (\<exists>result rest. moderationResponse sample_env = Some (result # rest)
        \<and> flaggedCategoryNames result = [''sexual'', ''violence'']
        \<and> reason (fst (moderateImage sample_env (Buffer ''raw bytes''))) =
            Some (''Flagged categories: '' @ join '', '' (flaggedCategoryNames result)))
   \<and> moderateImage unflagged_env (Buffer ''raw bytes'') =
       (\<lparr>isInappropriate = True, reason = Some ''Secondary detection: nudity''\<rparr>, [Primary, Secondary])
   \<and> secondaryCheck (secondaryResponse unflagged_env) = Some (stageLabel Secondary @ ''nudity'')"
proof -
  have p: "primaryCheck (moderationResponse sample_env) = (True, ''Flagged categories: sexual, violence'')"
    by (simp add: sample_env_def primaryCheck_def)
  have m1: "moderateImage sample_env (Buffer ''raw bytes'') =
     (\<lparr>isInappropriate = True, reason = Some ''Flagged categories: sexual, violence''\<rparr>, [Primary])"
    using moderateImage_cascade [OF sample_env_prepared] p by (simp add: stageOutcomes_def)
  have f: "flaggedCategoryNames \<lparr>flagged = True,
               categories = Some [(''sexual'', True), (''hate'', False), (''violence'', True)]\<rparr>
             = [''sexual'', ''violence'']"
    by (simp add: flaggedCategoryNames_def)
  have h: "apiKey unflagged_env = Some ''sk-test''" "''sk-test'' \<noteq> []"
    "tempDirExists unflagged_env \<or> mkdirOk unflagged_env"
    "prepareImage unflagged_env ''raw bytes'' = Some ''a picture of a slut''"
    by (simp_all add: unflagged_env_def sample_env_def prepareImage_def)
  have q: "primaryCheck (moderationResponse unflagged_env) = (False, ''Inappropriate content detected'')"
    by (simp add: unflagged_env_def primaryCheck_def)
  have s: "secondaryCheck (secondaryResponse unflagged_env) = Some ''Secondary detection: nudity''"
    by code_simp
  have m2: "moderateImage unflagged_env (Buffer ''raw bytes'') =
       (\<lparr>isInappropriate = True, reason = Some ''Secondary detection: nudity''\<rparr>, [Primary, Secondary])"
    using moderateImage_cascade [OF h] q s by (simp add: stageOutcomes_def)
  have r1: "\<exists>result rest. moderationResponse sample_env = Some (result # rest)
        \<and> flaggedCategoryNames result = [''sexual'', ''violence'']
        \<and> reason (fst (moderateImage sample_env (Buffer ''raw bytes''))) =
            Some (''Flagged categories: '' @ join '', '' (flaggedCategoryNames result))"
    using moderateImage_reason [of sample_env "Buffer ''raw bytes''"] m1 f
    by (auto simp: sample_env_def)
  have r2: "secondaryCheck (secondaryResponse unflagged_env) = Some (stageLabel Secondary @ ''nudity'')"
    using s by (simp add: stageLabel_def)
  from m1 r1 m2 r2 show ?thesis by blast
qed

text \<open>
  C8 as stated fails for the primary classification: when it flags without naming a
  category the reason is the bare sentence, which has no separator and so no stage
  name in front of it.
\<close>

theorem primary_reason_counterexample:
  "moderateImage uncategorised_env (Buffer ''raw bytes'') =
     (\<lparr>isInappropriate = True, reason = Some ''Inappropriate content detected''\<rparr>, [Primary])
   \<and> CHR '':'' \<notin> set ''Inappropriate content detected''"
proof -
  have h: "apiKey uncategorised_env = Some ''sk-test''" "''sk-test'' \<noteq> []"
    "tempDirExists uncategorised_env \<or> mkdirOk uncategorised_env"
    "prepareImage uncategorised_env ''raw bytes'' = Some ''a picture of a slut''"
    by (simp_all add: uncategorised_env_def sample_env_def prepareImage_def)
  have p: "primaryCheck (moderationResponse uncategorised_env) = (True, ''Inappropriate content detected'')"
    by (simp add: uncategorised_env_def primaryCheck_def)
  from moderateImage_cascade [OF h] p show ?thesis
    by (simp add: stageOutcomes_def)
qed

text \<open>
  C10. Without an API key (unset or empty), and for an argument that is not a buffer,
  \<open>moderateImage\<close> returns the not-flagged verdict with no reason and evaluates no
  stage at all, the two local scans included.
\<close>

theorem moderateImage_without_key:
  assumes "apiKey env = None \<or> apiKey env = Some [] \<or> input = NotABuffer"
  shows "moderateImage env input = (\<lparr>isInappropriate = False, reason = None\<rparr>, [])"
  using assms by (cases input) (auto simp: moderateImage_def notFlagged_def)

text \<open>
  An image whose bytes spell an explicit term: the direct pattern scan flags its
  base64, and without a key the image still passes unexamined.
\<close>

theorem moderateImage_without_key_witness:
  "moderateImage (sample_env\<lparr>apiKey := None\<rparr>) (Buffer ''slut'') =
     (\<lparr>isInappropriate = False, reason = None\<rparr>, [])
   \<and> moderateImage (sample_env\<lparr>apiKey := Some []\<rparr>) (Buffer ''slut'') =
     (\<lparr>isInappropriate = False, reason = None\<rparr>, [])
   \<and> moderateImage sample_env NotABuffer = (\<lparr>isInappropriate = False, reason = None\<rparr>, [])
   \<and> directCheck (base64 ''slut'') = Some ''Direct pattern matching: Detected explicit text''"
proof -
  have d: "directCheck (base64 ''slut'') = Some ''Direct pattern matching: Detected explicit text''"
    by code_simp
  have "apiKey (sample_env\<lparr>apiKey := None\<rparr>) = None" by simp
  then have a: "moderateImage (sample_env\<lparr>apiKey := None\<rparr>) (Buffer ''slut'') =
      (\<lparr>isInappropriate = False, reason = None\<rparr>, [])"
    using moderateImage_without_key by blast
  have "apiKey (sample_env\<lparr>apiKey := Some []\<rparr>) = Some []" by simp
  then have b: "moderateImage (sample_env\<lparr>apiKey := Some []\<rparr>) (Buffer ''slut'') =
      (\<lparr>isInappropriate = False, reason = None\<rparr>, [])"
    using moderateImage_without_key by blast
  have c: "moderateImage sample_env NotABuffer = (\<lparr>isInappropriate = False, reason = None\<rparr>, [])"
    using moderateImage_without_key by blast
  from a b c d show ?thesis by simp
qed

section \<open>Group settings\<close>

text \<open>
  C3, as the code has it. When no settings document exists for a group (also for the
  chat id 0, and when the collection cannot be used) \<open>getGroupSettings\<close> does not fail:
  it answers with the default settings, in which text, image and video moderation are
  all enabled.
\<close>

theorem getGroupSettings_absent:
  assumes "chatId = 0 \<or> groupSettings db = None
           \<or> (\<exists>coll. groupSettings db = Some coll \<and> coll chatId = None)"
  shows "getGroupSettings db chatId =
           \<lparr>settings_chatId = chatId, abusiveWordsEnabled = True, imageModeration = True,
            videoModeration = True\<rparr>"
  using assms by (auto simp: getGroupSettings_def getDefaultGroupSettings_def)

theorem getGroupSettings_absent_witness:
  "getGroupSettings emptyDatabase 7 =
     \<lparr>settings_chatId = 7, abusiveWordsEnabled = True, imageModeration = True, videoModeration = True\<rparr>
   \<and> getGroupSettings (emptyDatabase\<lparr>groupSettings := None\<rparr>) 7 =
     \<lparr>settings_chatId = 7, abusiveWordsEnabled = True, imageModeration = True, videoModeration = True\<rparr>"
proof -
  have "\<exists>coll. groupSettings emptyDatabase = Some coll \<and> coll (7::int) = None"
    by (simp add: emptyDatabase_def)
  then have a: "getGroupSettings emptyDatabase 7 =
     \<lparr>settings_chatId = 7, abusiveWordsEnabled = True, imageModeration = True, videoModeration = True\<rparr>"
    using getGroupSettings_absent by blast
  have "groupSettings (emptyDatabase\<lparr>groupSettings := None\<rparr>) = None" by simp
  then have b: "getGroupSettings (emptyDatabase\<lparr>groupSettings := None\<rparr>) 7 =
     \<lparr>settings_chatId = 7, abusiveWordsEnabled = True, imageModeration = True, videoModeration = True\<rparr>"
    using getGroupSettings_absent by blast
  from a b show ?thesis by simp
qed

text \<open>
  C3 as stated fails: for group 7, which has no settings document, all three features
  are enabled, and the word matcher flags an abusive text sent there.
\<close>

theorem unknown_group_counterexample:
  "abusiveWordsEnabled (getGroupSettings emptyDatabase 7)
   \<and> imageModeration (getGroupSettings emptyDatabase 7)
   \<and> videoModeration (getGroupSettings emptyDatabase 7)
   \<and> containsAbusiveWord (\<lambda>p. None) sample_bot (Str ''what the FUCK is this'') (Some 7)"
  by code_simp

section \<open>Normalising a word\<close>

lemma code_char_of: "n < 256 \<Longrightarrow> code (char_of n) = n"
  by (simp add: code_def)

lemma toLowerCase_char_idem: "toLowerCase_char (toLowerCase_char c) = toLowerCase_char c"
  by (auto simp: toLowerCase_char_def code_char_of)

lemma toLowerCase_idem: "toLowerCase (toLowerCase s) = toLowerCase s"
  by (simp add: toLowerCase_def toLowerCase_char_idem)

lemma isWhiteSpace_toLowerCase_char: "isWhiteSpace (toLowerCase_char c) = isWhiteSpace c"
  by (auto simp: toLowerCase_char_def isWhiteSpace_def code_char_of)

lemma dropWhile_map_toLowerCase:
  "dropWhile isWhiteSpace (map toLowerCase_char s) = map toLowerCase_char (dropWhile isWhiteSpace s)"
  by (induction s) (simp_all add: isWhiteSpace_toLowerCase_char)

lemma trim_toLowerCase: "trim (toLowerCase s) = toLowerCase (trim s)"
  by (simp add: trim_def toLowerCase_def dropWhile_map_toLowerCase rev_map)

lemma dropWhile_head: "xs = [] \<or> \<not> P (hd xs) \<Longrightarrow> dropWhile P xs = xs"
  by (cases xs) auto

lemma dropWhile_rev_dropWhile:
  "dropWhile P (rev (dropWhile P (rev (dropWhile P s)))) = rev (dropWhile P (rev (dropWhile P s)))"
proof -
  define t where "t = dropWhile P s"
  define u where "u = rev (dropWhile P (rev t))"
  have t: "t = [] \<or> \<not> P (hd t)"
    unfolding t_def by (cases "dropWhile P s = []") (auto simp: hd_dropWhile simp del: dropWhile_eq_Nil_conv)
  have split: "t = u @ rev (takeWhile P (rev t))"
    unfolding u_def by (metis rev_append rev_rev_ident takeWhile_dropWhile_id)
  have "u = [] \<or> \<not> P (hd u)"
  proof (cases u)
    case Nil
    then show ?thesis by simp
  next
    case (Cons a as)
    with split have "hd t = a" and "t \<noteq> []" by (cases t; simp)+
    with t Cons show ?thesis by simp
  qed
  then have "dropWhile P u = u" by (rule dropWhile_head)
  then show ?thesis unfolding u_def t_def .
qed

lemma trim_idem: "trim (trim s) = trim s"
  by (simp add: trim_def dropWhile_rev_dropWhile dropWhile_idem)

lemma normalize_idem: "trim (toLowerCase (trim (toLowerCase s))) = trim (toLowerCase s)"
  by (simp add: trim_toLowerCase toLowerCase_idem trim_idem)


section \<open>Term lists\<close>

lemma in_getDbAbusiveWords:
  "w \<in> set (getDbAbusiveWords d c) \<longleftrightarrow>
     c \<noteq> 0 \<and> (\<exists>docs. abusiveWordsCollection d = Some docs \<and> (c, w) \<in> set docs)"
  by (force simp: getDbAbusiveWords_def split: option.splits)

lemma removeFirst_absent: "\<not> list_ex P xs \<Longrightarrow> removeFirst P xs = xs"
  by (induction xs) auto

lemma addDbAbusiveWord_present:
  assumes "trim (toLowerCase word) \<in> set (getDbAbusiveWords d c)"
  shows "snd (addDbAbusiveWord d c word) = d"
    and "trim (toLowerCase word) \<noteq> [] \<Longrightarrow> fst (addDbAbusiveWord d c word)"
  using assms
  by (auto simp: addDbAbusiveWord_def in_getDbAbusiveWords Let_def trim_def toLowerCase_def)

lemma removeDbAbusiveWord_absent:
  assumes "trim (toLowerCase word) \<notin> set (getDbAbusiveWords d c)"
  shows "removeDbAbusiveWord d c word = (False, d)"
  using assms
  by (auto simp: removeDbAbusiveWord_def in_getDbAbusiveWords Let_def remove1_idem split: option.splits)

text \<open>
  C9. Adding a word whose normal form (lower case, trimmed) is already in the local
  list and, when a group is given, in the group's list of the database, leaves the
  whole state of the bot as it was and returns \<open>true\<close>. Removing a word that no entry
  of the local list equals in lower case and that the group's list does not hold
  leaves the state as it was and returns \<open>true\<close>. The same holds for the two
  functions of the database module on their own: adding a word that the group's list
  holds changes nothing and returns \<open>true\<close>; removing one that it does not hold changes
  nothing. (For the latter the database function reports \<open>deletedCount = 0\<close> by
  returning \<open>false\<close> and logging "not found"; it does not throw, and the bot ignores
  that result.)
\<close>

theorem term_list_mutation_idempotent:
  "(trim (toLowerCase word) \<in> set (abusiveWords b)
      \<and> (\<forall>c. truthy chatId = Some c \<longrightarrow> trim (toLowerCase word) \<in> set (getDbAbusiveWords (bot_db b) c))
      \<longrightarrow> addAbusiveWord writeOk b word chatId = (True, b))
   \<and> (\<not> list_ex (\<lambda>w. toLowerCase w = trim (toLowerCase word)) (abusiveWords b)
      \<and> (\<forall>c. truthy chatId = Some c \<longrightarrow> trim (toLowerCase word) \<notin> set (getDbAbusiveWords (bot_db b) c))
      \<longrightarrow> removeAbusiveWord writeOk b word chatId = (True, b))
   \<and> (trim (toLowerCase word) \<in> set (getDbAbusiveWords d c) \<and> trim (toLowerCase word) \<noteq> []
      \<longrightarrow> addDbAbusiveWord d c word = (True, d))
   \<and> (trim (toLowerCase word) \<notin> set (getDbAbusiveWords d c)
      \<longrightarrow> removeDbAbusiveWord d c word = (False, d))"
proof (intro conjI impI)
  assume a: "trim (toLowerCase word) \<in> set (abusiveWords b)
      \<and> (\<forall>c. truthy chatId = Some c \<longrightarrow> trim (toLowerCase word) \<in> set (getDbAbusiveWords (bot_db b) c))"
  show "addAbusiveWord writeOk b word chatId = (True, b)"
  proof (cases "truthy chatId")
    case None
    with a show ?thesis by (simp add: addAbusiveWord_def Let_def)
  next
    case (Some c)
    with a have "trim (toLowerCase (trim (toLowerCase word))) \<in> set (getDbAbusiveWords (bot_db b) c)"
      by (simp add: normalize_idem)
    then have "snd (addDbAbusiveWord (bot_db b) c (trim (toLowerCase word))) = bot_db b"
      by (rule addDbAbusiveWord_present)
    with a Some show ?thesis by (simp add: addAbusiveWord_def Let_def)
  qed
next
  assume a: "\<not> list_ex (\<lambda>w. toLowerCase w = trim (toLowerCase word)) (abusiveWords b)
      \<and> (\<forall>c. truthy chatId = Some c \<longrightarrow> trim (toLowerCase word) \<notin> set (getDbAbusiveWords (bot_db b) c))"
  show "removeAbusiveWord writeOk b word chatId = (True, b)"
  proof (cases "truthy chatId")
    case None
    with a show ?thesis by (simp add: removeAbusiveWord_def Let_def)
  next
    case (Some c)
    with a have "trim (toLowerCase (trim (toLowerCase word))) \<notin> set (getDbAbusiveWords (bot_db b) c)"
      by (simp add: normalize_idem)
    then have "removeDbAbusiveWord (bot_db b) c (trim (toLowerCase word)) = (False, bot_db b)"
      by (rule removeDbAbusiveWord_absent)
    with a Some show ?thesis by (simp add: removeAbusiveWord_def Let_def)
  qed
next
  assume "trim (toLowerCase word) \<in> set (getDbAbusiveWords d c) \<and> trim (toLowerCase word) \<noteq> []"
  then show "addDbAbusiveWord d c word = (True, d)"
    using addDbAbusiveWord_present [of word d c] by (simp add: prod_eq_iff)
next
  assume "trim (toLowerCase word) \<notin> set (getDbAbusiveWords d c)"
  then show "removeDbAbusiveWord d c word = (False, d)"
    by (rule removeDbAbusiveWord_absent)
qed

text \<open>
  Adding "  FUCK " (in the default list as "fuck"), removing "Idiot" from group 8
  (which does not have it), and the two database functions on group 7.
\<close>

theorem term_list_mutation_idempotent_witness:
  "addAbusiveWord True group7_bot ''  FUCK '' None = (True, group7_bot)
   \<and> removeAbusiveWord True group7_bot ''Idiot'' (Some 8) = (True, group7_bot)
   \<and> addDbAbusiveWord (bot_db group7_bot) 7 '' Idiot'' = (True, bot_db group7_bot)
   \<and> removeDbAbusiveWord (bot_db group7_bot) 7 ''moron'' = (False, bot_db group7_bot)"
proof -
  have n1: "trim (toLowerCase ''  FUCK '') = ''fuck''" by code_simp
  have n2: "trim (toLowerCase ''Idiot'') = ''idiot''" by code_simp
  have n3: "trim (toLowerCase '' Idiot'') = ''idiot''" by code_simp
  have n4: "trim (toLowerCase ''moron'') = ''moron''" by code_simp
  have w7: "getDbAbusiveWords (bot_db group7_bot) 7 = [''idiot'']"
    and w8: "getDbAbusiveWords (bot_db group7_bot) 8 = [''moron'']"
    by (simp_all add: group7_bot_def getDbAbusiveWords_def emptyDatabase_def)
  have l: "abusiveWords group7_bot =
      [''fuck'', ''shit'', ''asshole'', ''bitch'', ''dick'', ''pussy'', ''cunt'',
       ''whore'', ''slut'', ''bastard'']"
    by (simp add: group7_bot_def sample_bot_def)
  have low: "\<not> list_ex (\<lambda>w. toLowerCase w = ''idiot'') (abusiveWords group7_bot)"
    unfolding l by code_simp
  have t0: "truthy None = None" and t8: "truthy (Some 8) = Some 8"
    by (simp_all add: truthy_def)
  have a: "addAbusiveWord True group7_bot ''  FUCK '' None = (True, group7_bot)"
    using term_list_mutation_idempotent
      [where word = "''  FUCK ''" and b = group7_bot and chatId = None] n1 l t0
    by simp
  have b: "removeAbusiveWord True group7_bot ''Idiot'' (Some 8) = (True, group7_bot)"
    using term_list_mutation_idempotent
      [where word = "''Idiot''" and b = group7_bot and chatId = "Some 8"] n2 low t8 w8
    by simp
  have c: "addDbAbusiveWord (bot_db group7_bot) 7 '' Idiot'' = (True, bot_db group7_bot)"
    using term_list_mutation_idempotent
      [where word = "'' Idiot''" and d = "bot_db group7_bot" and c = 7] n3 w7
    by simp
  have d: "removeDbAbusiveWord (bot_db group7_bot) 7 ''moron'' = (False, bot_db group7_bot)"
    using term_list_mutation_idempotent
      [where word = "''moron''" and d = "bot_db group7_bot" and c = 7] n4 w7
    by simp
  from a b c d show ?thesis by simp
qed

section \<open>Word matcher\<close>

text \<open>
  C4 on the code, for a word written with an asterisk. The word "sh*t" is in the list
  and the text is "sh*t"; the pattern is valid, so the substring fallback does not
  apply, and as a pattern it asks for "s", any number of "h", then "t". The text
  contains the word (\<open>includes\<close> finds it) and is not flagged, while the text "st",
  which does not contain it, is flagged.
\<close>

theorem containsAbusiveWord_asterisk:
  "containsAbusiveWord engine asterisk_bot (Str ''sh*t'') None = False
   \<and> includes_str (toLowerCase ''sh*t'') (toLowerCase ''sh*t'') = True
   \<and> containsAbusiveWord engine asterisk_bot (Str ''st'') None = True
   \<and> includes_str (toLowerCase ''st'') (toLowerCase ''sh*t'') = False"
  by code_simp

text \<open>A word of plain characters compiles to the literal pattern between two boundaries.\<close>

lemma parse_plain:
  "list_all isPlainChar w \<Longrightarrow>
     parse_pattern m acc (w @ [CHR 0x5C, CHR ''b'']) =
       Items (rev acc @ map (\<lambda>c. Atom (Lit c) Once) w @ [WordBoundary])"
proof (induction w arbitrary: m acc)
  case Nil
  then show ?case by simp
next
  case (Cons c w)
  then have "isPlainChar c" and w: "list_all isPlainChar w"
    by simp_all
  then have c: "c \<noteq> CHR 0x5C" "\<not> isOtherSyntaxChar c" "\<not> isQuantifierChar c" "c \<noteq> CHR ''.''"
    by (simp_all add: isPlainChar_def)
  show ?case using c Cons.IH [OF w] by simp
qed

lemma parse_boundary_pattern:
  assumes "list_all isPlainChar (toLowerCase w)"
  shows "parse_pattern NoAtom [] (boundary_pattern w) =
           Items (WordBoundary # map (\<lambda>c. Atom (Lit c) Once) (toLowerCase w) @ [WordBoundary])"
  using parse_plain [OF assms, of NoAtom "[WordBoundary]"]
  by (simp add: boundary_pattern_def)

lemma matches_literals:
  "i \<le> length s \<Longrightarrow>
   matches (map (\<lambda>c. Atom (Lit c) Once) w @ r) s i =
     (i + length w \<le> length s
      \<and> map toLowerCase_char (take (length w) (drop i s)) = map toLowerCase_char w
      \<and> matches r s (i + length w))"
proof (induction w arbitrary: i)
  case Nil
  then show ?case by auto
next
  case (Cons c w)
  show ?case
  proof (cases "i < length s")
    case True
    then have d: "drop i s = s ! i # drop (Suc i) s" by (simp add: Cons_nth_drop_Suc)
    show ?thesis using True Cons.IH [of "Suc i"] by (auto simp: d)
  next
    case False
    with Cons.prems show ?thesis by simp
  qed
qed

lemma isWordBoundary_append:
  "isWordBoundary (pre @ rest) (length pre) =
     ((pre \<noteq> [] \<and> isWordChar (last pre)) \<noteq> (rest \<noteq> [] \<and> isWordChar (hd rest)))"
proof -
  have a: "(0 < length pre \<and> length pre \<le> length (pre @ rest) \<and> isWordChar ((pre @ rest) ! (length pre - 1)))
           = (pre \<noteq> [] \<and> isWordChar (last pre))"
    by (cases "pre = []") (simp_all add: nth_append last_conv_nth)
  have b: "(length pre < length (pre @ rest) \<and> isWordChar ((pre @ rest) ! length pre))
           = (rest \<noteq> [] \<and> isWordChar (hd rest))"
    by (cases rest) (simp_all add: nth_append)
  show ?thesis unfolding isWordBoundary_def a b ..
qed

lemma test_literal:
  "test_items (WordBoundary # map (\<lambda>c. Atom (Lit c) Once) w @ [WordBoundary]) s =
     (\<exists>i. i + length w \<le> length s
          \<and> map toLowerCase_char (take (length w) (drop i s)) = map toLowerCase_char w
          \<and> isWordBoundary s i \<and> isWordBoundary s (i + length w))"
proof -
  let ?its = "WordBoundary # map (\<lambda>c. Atom (Lit c) Once) w @ [WordBoundary]"
  let ?P = "\<lambda>i. i + length w \<le> length s
          \<and> map toLowerCase_char (take (length w) (drop i s)) = map toLowerCase_char w
          \<and> isWordBoundary s i \<and> isWordBoundary s (i + length w)"
  have m: "matches ?its s i = ?P i" if "i \<le> length s" for i
    using matches_literals [OF that, of w "[WordBoundary]"] by auto
  have "test_items ?its s = (\<exists>i\<in>{0..<Suc (length s)}. matches ?its s i)"
    unfolding test_items_def list_ex_iff set_upt ..
  also have "\<dots> = (\<exists>i. i \<le> length s \<and> matches ?its s i)"
    by (simp only: Bex_def atLeastLessThan_iff less_Suc_eq_le le0 simp_thms)
  also have "\<dots> = (\<exists>i. i \<le> length s \<and> ?P i)"
    using m by blast
  also have "\<dots> = (\<exists>i. ?P i)"
  proof -
    have "i \<le> length s" if "?P i" for i using that by simp
    then show ?thesis by blast
  qed
  finally show ?thesis .
qed

lemma occurs_positions:
  "(\<exists>i. i + length w \<le> length s \<and> take (length w) (drop i s) = w
        \<and> isWordBoundary s i \<and> isWordBoundary s (i + length w))
   = occursAtWordBoundary w s"
proof
  assume "\<exists>i. i + length w \<le> length s \<and> take (length w) (drop i s) = w
        \<and> isWordBoundary s i \<and> isWordBoundary s (i + length w)"
  then obtain i where i: "i + length w \<le> length s" and t: "take (length w) (drop i s) = w"
    and b1: "isWordBoundary s i" and b2: "isWordBoundary s (i + length w)" by blast
  define pre where "pre = take i s"
  define post where "post = drop (i + length w) s"
  have s: "s = pre @ w @ post"
  proof -
    have "s = take i s @ drop i s" by simp
    also have "drop i s = take (length w) (drop i s) @ drop (length w) (drop i s)"
      by (simp only: append_take_drop_id)
    finally show ?thesis using t by (simp add: pre_def post_def add.commute)
  qed
  have lp: "length pre = i" using i by (simp add: pre_def)
  have lpw: "length (pre @ w) = i + length w" using lp by simp
  have "isWordBoundary (pre @ (w @ post)) (length pre)" using b1 s lp by simp
  then have c1: "(pre \<noteq> [] \<and> isWordChar (last pre)) \<noteq> (w @ post \<noteq> [] \<and> isWordChar (hd (w @ post)))"
    unfolding isWordBoundary_append .
  have "isWordBoundary ((pre @ w) @ post) (length (pre @ w))" using b2 s lpw by simp
  then have c2: "(pre @ w \<noteq> [] \<and> isWordChar (last (pre @ w))) \<noteq> (post \<noteq> [] \<and> isWordChar (hd post))"
    unfolding isWordBoundary_append .
  from s c1 c2 show "occursAtWordBoundary w s" unfolding occursAtWordBoundary_def by blast
next
  assume "occursAtWordBoundary w s"
  then obtain pre post where s: "s = pre @ w @ post"
    and c1: "(pre \<noteq> [] \<and> isWordChar (last pre)) \<noteq> (w @ post \<noteq> [] \<and> isWordChar (hd (w @ post)))"
    and c2: "(pre @ w \<noteq> [] \<and> isWordChar (last (pre @ w))) \<noteq> (post \<noteq> [] \<and> isWordChar (hd post))"
    unfolding occursAtWordBoundary_def by blast
  have b1: "isWordBoundary s (length pre)"
    unfolding s isWordBoundary_append using c1 .
  have "isWordBoundary ((pre @ w) @ post) (length (pre @ w))"
    unfolding isWordBoundary_append using c2 .
  then have b2: "isWordBoundary s (length pre + length w)" unfolding s by simp
  have "length pre + length w \<le> length s" and "take (length w) (drop (length pre) s) = w"
    unfolding s by simp_all
  with b1 b2 show "\<exists>i. i + length w \<le> length s \<and> take (length w) (drop i s) = w
        \<and> isWordBoundary s i \<and> isWordBoundary s (i + length w)" by blast
qed

lemma toLowerCase_take_drop:
  "map toLowerCase_char (take n (drop i (toLowerCase t))) = take n (drop i (toLowerCase t))"
  by (simp add: toLowerCase_def toLowerCase_char_idem take_map drop_map)

lemma toLowerCase_fixed: "map toLowerCase_char (toLowerCase w) = toLowerCase w"
  by (simp add: toLowerCase_def toLowerCase_char_idem)

lemma RegExp_test_plain:
  assumes "list_all isPlainChar (toLowerCase w)"
  shows "RegExp_test engine (boundary_pattern w) (toLowerCase t) =
           Some (occursAtWordBoundary (toLowerCase w) (toLowerCase t))"
proof -
  have "test_items (WordBoundary # map (\<lambda>c. Atom (Lit c) Once) (toLowerCase w) @ [WordBoundary]) (toLowerCase t)
        = occursAtWordBoundary (toLowerCase w) (toLowerCase t)"
    unfolding test_literal toLowerCase_take_drop toLowerCase_fixed
    by (rule occurs_positions)
  then show ?thesis
    by (simp add: RegExp_test_def parse_boundary_pattern [OF assms])
qed

lemma anyWordMatches_plain:
  assumes "\<forall>w\<in>set ws. list_all isPlainChar (toLowerCase w)"
  shows "anyWordMatches engine (toLowerCase t) ws =
           (\<exists>w\<in>set ws. occursAtWordBoundary (toLowerCase w) (toLowerCase t))"
  using assms by (induction ws) (auto simp: RegExp_test_plain split: bool.splits)

text \<open>
  For word lists whose words (in lower case) consist of plain characters, the check
  does what its comment says: a non-empty text is flagged exactly when some word of
  the local list or, with a group given and text moderation enabled there, of the
  group's list occurs in the lower-cased text between word boundaries; with a group
  given and text moderation disabled nothing is flagged.
\<close>

theorem containsAbusiveWord_plain_words:
  assumes "\<forall>w\<in>set (abusiveWords b). list_all isPlainChar (toLowerCase w)"
    and "\<forall>c w. truthy chatId = Some c \<and> w \<in> set (getDbAbusiveWords (bot_db b) c)
           \<longrightarrow> list_all isPlainChar (toLowerCase w)"
  shows "containsAbusiveWord engine b (Str t) chatId =
     (t \<noteq> []
      \<and> (case truthy chatId of
            None \<Rightarrow> \<exists>w\<in>set (abusiveWords b). occursAtWordBoundary (toLowerCase w) (toLowerCase t)
          | Some c \<Rightarrow>
              abusiveWordsEnabled (getGroupSettings (bot_db b) c)
              \<and> (\<exists>w\<in>set (abusiveWords b) \<union> set (getDbAbusiveWords (bot_db b) c).
                     occursAtWordBoundary (toLowerCase w) (toLowerCase t))))"
proof (cases "truthy chatId")
  case None
  then show ?thesis
    using anyWordMatches_plain [OF assms(1)]
    by (simp add: containsAbusiveWord_def Let_def)
next
  case (Some c)
  then have "\<forall>w\<in>set (getDbAbusiveWords (bot_db b) c). list_all isPlainChar (toLowerCase w)"
    using assms(2) by blast
  then show ?thesis
    using Some anyWordMatches_plain [OF assms(1)] anyWordMatches_plain
    by (auto simp: containsAbusiveWord_def Let_def)
qed

text \<open>The default list flags "What the FUCK".\<close>

theorem containsAbusiveWord_plain_words_witness:
  "containsAbusiveWord (\<lambda>p. None) sample_bot (Str ''What the FUCK'') None
   \<and> (\<exists>w\<in>set (abusiveWords sample_bot). occursAtWordBoundary (toLowerCase w) (toLowerCase ''What the FUCK''))"
proof -
  have p: "\<forall>w\<in>set (abusiveWords sample_bot). list_all isPlainChar (toLowerCase w)"
    by code_simp
  have q: "\<forall>c w. truthy None = Some c \<and> w \<in> set (getDbAbusiveWords (bot_db sample_bot) c)
           \<longrightarrow> list_all isPlainChar (toLowerCase w)"
    by (simp add: truthy_def)
  have a: "containsAbusiveWord (\<lambda>p. None) sample_bot (Str ''What the FUCK'') None" by code_simp
  show ?thesis
    using containsAbusiveWord_plain_words [OF p q, of "\<lambda>p. None" "''What the FUCK''"] a
    by (simp add: truthy_def)
qed

section \<open>Escalation\<close>

lemma abusiveWords_initSession [simp]: "abusiveWords (initSession b k) = abusiveWords b"
  by (simp add: initSession_def)

lemma bot_db_initSession [simp]: "bot_db (initSession b k) = bot_db b"
  by (simp add: initSession_def)

lemma sessionOf_initSession [simp]: "sessionOf (initSession b k) k' = sessionOf b k'"
  by (simp add: sessionOf_def initSession_def)

lemma containsAbusiveWord_initSession [simp]:
  "containsAbusiveWord engine (initSession b k) t c = containsAbusiveWord engine b t c"
  by (simp add: containsAbusiveWord_def Let_def split: js_value.splits option.splits)

lemma countViolation_usable:
  assumes "userWarningsAcrossSessions (bot_db b) = Some coll" and "u \<noteq> 0" and "g \<noteq> 0"
    and "0 \<le> storedCount b u g"
  shows "fst (countViolation b u g) = storedCount b u g + 1"
    and "storedCount (snd (countViolation b u g)) u g = storedCount b u g + 1"
    and "userWarningsAcrossSessions (bot_db (snd (countViolation b u g))) = Some (coll((u, g) \<mapsto> storedCount b u g + 1))"
    and "lastWarning (sessionOf (snd (countViolation b u g)) (u, g)) = lastWarning (sessionOf b (u, g))"
  using assms
  by (auto simp: countViolation_def storedCount_def getUserWarningsAcrossSessions_def
      updateUserWarningsAcrossSessions_def Let_def sessionOf_def split: option.splits)


text \<open>Behind its guards the text handler is the escalation block.\<close>

lemma on_message_text_escalation:
  assumes "reachesEscalation engine b ctx u" and "ctx_chatId ctx = g"
  shows "on_message_text engine b ctx =
     (let wb = countViolation (initSession b (u, g)) u g in
      if fst wb \<ge> 3 then
        if \<not> banChatMemberOk ctx
          then (snd wb, deletion ctx @ [BanChatMember False, Reply BanFailedNotice (replyOk ctx BanFailedNotice)])
        else if \<not> replyOk ctx (BanNotice ''text'')
          then (snd wb, deletion ctx @ [BanChatMember True, Reply (BanNotice ''text'') False,
                                       Reply BanFailedNotice (replyOk ctx BanFailedNotice)])
        else (resetWarnings (snd wb) u g, deletion ctx @ [BanChatMember True, Reply (BanNotice ''text'') True])
      else if deleteMessageOk ctx then
        (fst (warnUser (snd wb) ctx u g ''text'' (fst wb)),
         deletion ctx @ snd (warnUser (snd wb) ctx u g ''text'' (fst wb)))
      else (snd wb, deletion ctx))"
  using assms
  by (auto simp: on_message_text_def reachesEscalation_def Let_def deletion_def split: prod.splits)

lemma warnUser_effects:
  "snd (warnUser b ctx u g what n) =
     (if cooldownOver b ctx u g then [Reply (WarningNotice what n) (replyOk ctx (WarningNotice what n))] else [])"
  by (simp add: warnUser_def cooldownOver_def Let_def)

lemma warnUser_state:
  "bot_db (fst (warnUser b ctx u g what n)) = bot_db b"
  "abusiveWords (fst (warnUser b ctx u g what n)) = abusiveWords b"
  "lastWarning (sessionOf (fst (warnUser b ctx u g what n)) (u, g)) =
     (if cooldownOver b ctx u g \<and> replyOk ctx (WarningNotice what n) then clock ctx
      else lastWarning (sessionOf b (u, g)))"
  by (simp_all add: warnUser_def cooldownOver_def Let_def sessionOf_def)

lemma storedCount_cong: "bot_db b' = bot_db b \<Longrightarrow> storedCount b' u g = storedCount b u g"
  by (simp add: storedCount_def)

lemma cooldownOver_cong:
  "lastWarning (sessionOf b' (u, g)) = lastWarning (sessionOf b (u, g)) \<Longrightarrow>
     cooldownOver b' ctx u g = cooldownOver b ctx u g"
  by (simp add: cooldownOver_def)

lemma resetWarnings_usable:
  assumes "userWarningsAcrossSessions (bot_db b) = Some coll" and "u \<noteq> 0" and "g \<noteq> 0"
  shows "storedCount (resetWarnings b u g) u g = 0"
    and "userWarningsAcrossSessions (bot_db (resetWarnings b u g)) = Some (coll((u, g) \<mapsto> 0))"
    and "lastWarning (sessionOf (resetWarnings b u g) (u, g)) = lastWarning (sessionOf b (u, g))"
  using assms
  by (auto simp: resetWarnings_def storedCount_def getUserWarningsAcrossSessions_def
      updateUserWarningsAcrossSessions_def sessionOf_def)

lemma countViolation_config:
  "abusiveWords (snd (countViolation b u g)) = abusiveWords b"
  "groupSettings (bot_db (snd (countViolation b u g))) = groupSettings (bot_db b)"
  "abusiveWordsCollection (bot_db (snd (countViolation b u g))) = abusiveWordsCollection (bot_db b)"
  by (auto simp: countViolation_def updateUserWarningsAcrossSessions_def Let_def split: option.splits)

lemma resetWarnings_config:
  "abusiveWords (resetWarnings b u g) = abusiveWords b"
  "groupSettings (bot_db (resetWarnings b u g)) = groupSettings (bot_db b)"
  "abusiveWordsCollection (bot_db (resetWarnings b u g)) = abusiveWordsCollection (bot_db b)"
  by (auto simp: resetWarnings_def updateUserWarningsAcrossSessions_def split: option.splits)


text \<open>
  One flagged text with a usable warnings collection: the effects, the count stored
  afterwards, \<open>lastWarning\<close> afterwards, and what stays as it was.
\<close>

lemma text_step:
  assumes re: "reachesEscalation engine b ctx u" and g: "ctx_chatId ctx = g" and g0: "g \<noteq> 0"
    and us: "userWarningsAcrossSessions (bot_db b) = Some coll" and nn: "0 \<le> storedCount b u g"
  shows "snd (on_message_text engine b ctx) =
           deletion ctx @
           (if storedCount b u g + 1 \<ge> 3 then textBan ctx
            else if deleteMessageOk ctx \<and> cooldownOver b ctx u g
              then [Reply (WarningNotice ''text'' (storedCount b u g + 1))
                      (replyOk ctx (WarningNotice ''text'' (storedCount b u g + 1)))]
            else [])"
    and "storedCount (fst (on_message_text engine b ctx)) u g =
           (if storedCount b u g + 1 \<ge> 3 \<and> banChatMemberOk ctx \<and> replyOk ctx (BanNotice ''text'')
            then 0 else storedCount b u g + 1)"
    and "lastWarning (sessionOf (fst (on_message_text engine b ctx)) (u, g)) =
           (if storedCount b u g + 1 < 3 \<and> deleteMessageOk ctx \<and> cooldownOver b ctx u g
               \<and> replyOk ctx (WarningNotice ''text'' (storedCount b u g + 1))
            then clock ctx else lastWarning (sessionOf b (u, g)))"
    and "\<exists>coll'. userWarningsAcrossSessions (bot_db (fst (on_message_text engine b ctx))) = Some coll'"
    and "abusiveWords (fst (on_message_text engine b ctx)) = abusiveWords b"
    and "groupSettings (bot_db (fst (on_message_text engine b ctx))) = groupSettings (bot_db b)"
    and "abusiveWordsCollection (bot_db (fst (on_message_text engine b ctx))) = abusiveWordsCollection (bot_db b)"
proof -
  define b0 where "b0 = initSession b (u, g)"
  define wb where "wb = countViolation b0 u g"
  have u0: "u \<noteq> 0" using re by (simp add: reachesEscalation_def)
  have us0: "userWarningsAcrossSessions (bot_db b0) = Some coll" using us by (simp add: b0_def)
  have sc0: "storedCount b0 u g = storedCount b u g" by (simp add: b0_def storedCount_def)
  have nn0: "0 \<le> storedCount b0 u g" using nn sc0 by simp
  note cv = countViolation_usable [OF us0 u0 g0 nn0, folded wb_def, unfolded sc0]
  have lw: "lastWarning (sessionOf (snd wb) (u, g)) = lastWarning (sessionOf b (u, g))"
    using cv(4) by (simp add: b0_def)
  have co: "cooldownOver (snd wb) ctx u g = cooldownOver b ctx u g"
    using lw by (rule cooldownOver_cong)
  note cfg = countViolation_config [of b0 u g, folded wb_def]
  have eq: "on_message_text engine b ctx =
     (if fst wb \<ge> 3 then
        if \<not> banChatMemberOk ctx
          then (snd wb, deletion ctx @ [BanChatMember False, Reply BanFailedNotice (replyOk ctx BanFailedNotice)])
        else if \<not> replyOk ctx (BanNotice ''text'')
          then (snd wb, deletion ctx @ [BanChatMember True, Reply (BanNotice ''text'') False,
                                       Reply BanFailedNotice (replyOk ctx BanFailedNotice)])
        else (resetWarnings (snd wb) u g, deletion ctx @ [BanChatMember True, Reply (BanNotice ''text'') True])
      else if deleteMessageOk ctx then
        (fst (warnUser (snd wb) ctx u g ''text'' (fst wb)),
         deletion ctx @ snd (warnUser (snd wb) ctx u g ''text'' (fst wb)))
      else (snd wb, deletion ctx))"
    using on_message_text_escalation [OF re g] by (simp add: Let_def wb_def b0_def)
  note rs = resetWarnings_usable [OF cv(3) u0 g0]
  note rc = resetWarnings_config [of "snd wb" u g]
  show "snd (on_message_text engine b ctx) =
           deletion ctx @
           (if storedCount b u g + 1 \<ge> 3 then textBan ctx
            else if deleteMessageOk ctx \<and> cooldownOver b ctx u g
              then [Reply (WarningNotice ''text'' (storedCount b u g + 1))
                      (replyOk ctx (WarningNotice ''text'' (storedCount b u g + 1)))]
            else [])"
    unfolding eq using cv(1) co by (simp add: textBan_def warnUser_effects)
  show "storedCount (fst (on_message_text engine b ctx)) u g =
           (if storedCount b u g + 1 \<ge> 3 \<and> banChatMemberOk ctx \<and> replyOk ctx (BanNotice ''text'')
            then 0 else storedCount b u g + 1)"
    unfolding eq using cv(1,2) rs(1)
    by (simp add: storedCount_cong [OF warnUser_state(1)])
  show "lastWarning (sessionOf (fst (on_message_text engine b ctx)) (u, g)) =
           (if storedCount b u g + 1 < 3 \<and> deleteMessageOk ctx \<and> cooldownOver b ctx u g
               \<and> replyOk ctx (WarningNotice ''text'' (storedCount b u g + 1))
            then clock ctx else lastWarning (sessionOf b (u, g)))"
    unfolding eq using cv(1) lw co rs(3) by (simp add: warnUser_state)
  show "\<exists>coll'. userWarningsAcrossSessions (bot_db (fst (on_message_text engine b ctx))) = Some coll'"
    unfolding eq using cv(3) rs(2) by (simp add: warnUser_state)
  show "abusiveWords (fst (on_message_text engine b ctx)) = abusiveWords b"
    unfolding eq using cfg rc by (simp add: warnUser_state b0_def)
  show "groupSettings (bot_db (fst (on_message_text engine b ctx))) = groupSettings (bot_db b)"
    unfolding eq using cfg rc by (simp add: warnUser_state b0_def)
  show "abusiveWordsCollection (bot_db (fst (on_message_text engine b ctx))) = abusiveWordsCollection (bot_db b)"
    unfolding eq using cfg rc by (simp add: warnUser_state b0_def)
qed


lemma handleInappropriateContent_unfold:
  "handleInappropriateContent b ctx u g what =
     (let wb = countViolation (initSession b (u, g)) u g in
      if fst wb \<ge> 3 then
        if \<not> banChatMemberOk ctx then (snd wb, [BanChatMember False])
        else if \<not> replyOk ctx (BanNotice what)
          then (snd wb, [BanChatMember True, Reply (BanNotice what) False])
        else (resetWarnings (snd wb) u g, [BanChatMember True, Reply (BanNotice what) True])
      else warnUser (snd wb) ctx u g what (fst wb))"
  by (simp add: handleInappropriateContent_def Let_def split: prod.splits)

text \<open>The same for \<open>handleInappropriateContent\<close>.\<close>

lemma media_step:
  assumes u0: "u \<noteq> 0" and g0: "g \<noteq> 0"
    and us: "userWarningsAcrossSessions (bot_db b) = Some coll" and nn: "0 \<le> storedCount b u g"
  shows "snd (handleInappropriateContent b ctx u g what) =
           (if storedCount b u g + 1 \<ge> 3 then mediaBan ctx what
            else if cooldownOver b ctx u g
              then [Reply (WarningNotice what (storedCount b u g + 1))
                      (replyOk ctx (WarningNotice what (storedCount b u g + 1)))]
            else [])"
    and "storedCount (fst (handleInappropriateContent b ctx u g what)) u g =
           (if storedCount b u g + 1 \<ge> 3 \<and> banChatMemberOk ctx \<and> replyOk ctx (BanNotice what)
            then 0 else storedCount b u g + 1)"
    and "lastWarning (sessionOf (fst (handleInappropriateContent b ctx u g what)) (u, g)) =
           (if storedCount b u g + 1 < 3 \<and> cooldownOver b ctx u g
               \<and> replyOk ctx (WarningNotice what (storedCount b u g + 1))
            then clock ctx else lastWarning (sessionOf b (u, g)))"
    and "\<exists>coll'. userWarningsAcrossSessions (bot_db (fst (handleInappropriateContent b ctx u g what))) = Some coll'"
proof -
  define b0 where "b0 = initSession b (u, g)"
  define wb where "wb = countViolation b0 u g"
  have us0: "userWarningsAcrossSessions (bot_db b0) = Some coll" using us by (simp add: b0_def)
  have sc0: "storedCount b0 u g = storedCount b u g" by (simp add: b0_def storedCount_def)
  have nn0: "0 \<le> storedCount b0 u g" using nn sc0 by simp
  note cv = countViolation_usable [OF us0 u0 g0 nn0, folded wb_def, unfolded sc0]
  have lw: "lastWarning (sessionOf (snd wb) (u, g)) = lastWarning (sessionOf b (u, g))"
    using cv(4) by (simp add: b0_def)
  have co: "cooldownOver (snd wb) ctx u g = cooldownOver b ctx u g"
    using lw by (rule cooldownOver_cong)
  have eq: "handleInappropriateContent b ctx u g what =
     (if fst wb \<ge> 3 then
        if \<not> banChatMemberOk ctx then (snd wb, [BanChatMember False])
        else if \<not> replyOk ctx (BanNotice what)
          then (snd wb, [BanChatMember True, Reply (BanNotice what) False])
        else (resetWarnings (snd wb) u g, [BanChatMember True, Reply (BanNotice what) True])
      else warnUser (snd wb) ctx u g what (fst wb))"
    by (simp add: handleInappropriateContent_unfold Let_def wb_def b0_def)
  note rs = resetWarnings_usable [OF cv(3) u0 g0]
  show "snd (handleInappropriateContent b ctx u g what) =
           (if storedCount b u g + 1 \<ge> 3 then mediaBan ctx what
            else if cooldownOver b ctx u g
              then [Reply (WarningNotice what (storedCount b u g + 1))
                      (replyOk ctx (WarningNotice what (storedCount b u g + 1)))]
            else [])"
    unfolding eq using cv(1) co by (simp add: mediaBan_def warnUser_effects)
  show "storedCount (fst (handleInappropriateContent b ctx u g what)) u g =
           (if storedCount b u g + 1 \<ge> 3 \<and> banChatMemberOk ctx \<and> replyOk ctx (BanNotice what)
            then 0 else storedCount b u g + 1)"
    unfolding eq using cv(1,2) rs(1)
    by (simp add: storedCount_cong [OF warnUser_state(1)])
  show "lastWarning (sessionOf (fst (handleInappropriateContent b ctx u g what)) (u, g)) =
           (if storedCount b u g + 1 < 3 \<and> cooldownOver b ctx u g
               \<and> replyOk ctx (WarningNotice what (storedCount b u g + 1))
            then clock ctx else lastWarning (sessionOf b (u, g)))"
    unfolding eq using cv(1) lw co rs(3) by (simp add: warnUser_state)
  show "\<exists>coll'. userWarningsAcrossSessions (bot_db (fst (handleInappropriateContent b ctx u g what))) = Some coll'"
    unfolding eq using cv(3) rs(2) by (simp add: warnUser_state)
qed

lemma reachesEscalation_cong:
  assumes "abusiveWords b' = abusiveWords b"
    and "groupSettings (bot_db b') = groupSettings (bot_db b)"
    and "abusiveWordsCollection (bot_db b') = abusiveWordsCollection (bot_db b)"
  shows "reachesEscalation engine b' ctx u = reachesEscalation engine b ctx u"
proof -
  have gs: "getGroupSettings (bot_db b') c = getGroupSettings (bot_db b) c" for c
    using assms by (simp add: getGroupSettings_def)
  have gw: "getDbAbusiveWords (bot_db b') c = getDbAbusiveWords (bot_db b) c" for c
    using assms by (simp add: getDbAbusiveWords_def)
  have "containsAbusiveWord engine b' t c = containsAbusiveWord engine b t c" for t c
    using assms(1) gs gw
    by (simp add: containsAbusiveWord_def Let_def split: js_value.splits option.splits)
  then show ?thesis using gs by (simp add: reachesEscalation_def)
qed


lemma deletion_ok [simp]: "deleteMessageOk ctx \<Longrightarrow> deletion ctx = [DeleteMessage True]"
  by (simp add: deletion_def)




text \<open>Warnings that went out in one step.\<close>

lemma sent_warnings_deletion [simp]: "filter isSentWarning (deletion ctx) = []"
  by (simp add: deletion_def)

lemma sent_warnings_textBan [simp]: "filter isSentWarning (textBan ctx) = []"
  by (simp add: textBan_def)

lemma sent_warnings_mediaBan [simp]: "filter isSentWarning (mediaBan ctx what) = []"
  by (simp add: mediaBan_def)

lemma text_step_warnings:
  assumes re: "reachesEscalation engine b ctx u" and g: "ctx_chatId ctx = g" and g0: "g \<noteq> 0"
    and us: "userWarningsAcrossSessions (bot_db b) = Some coll" and nn: "0 \<le> storedCount b u g"
  shows "length (filter isSentWarning (snd (on_message_text engine b ctx))) \<le> 1"
    and "filter isSentWarning (snd (on_message_text engine b ctx)) \<noteq> [] \<Longrightarrow>
           lastWarning (sessionOf (fst (on_message_text engine b ctx)) (u, g)) = clock ctx"
    and "\<not> cooldownOver b ctx u g \<Longrightarrow> filter isSentWarning (snd (on_message_text engine b ctx)) = []"
  using text_step(1,3) [OF re g g0 us nn]
  by (auto split: if_splits)

lemma media_step_warnings:
  assumes u0: "u \<noteq> 0" and g0: "g \<noteq> 0"
    and us: "userWarningsAcrossSessions (bot_db b) = Some coll" and nn: "0 \<le> storedCount b u g"
  shows "length (filter isSentWarning (snd (handleInappropriateContent b ctx u g what))) \<le> 1"
    and "filter isSentWarning (snd (handleInappropriateContent b ctx u g what)) \<noteq> [] \<Longrightarrow>
           lastWarning (sessionOf (fst (handleInappropriateContent b ctx u g what)) (u, g)) = clock ctx"
    and "\<not> cooldownOver b ctx u g \<Longrightarrow>
           filter isSentWarning (snd (handleInappropriateContent b ctx u g what)) = []"
  using media_step(1,3) [OF u0 g0 us nn, of ctx what]
  by (auto split: if_splits)






lemma cooldown_closed:
  assumes "lastWarning (sessionOf b (u, g)) = t" and "t \<noteq> 0" and "clock ctx - t \<le> 60000"
  shows "\<not> cooldownOver b ctx u g"
  using assms by (simp add: cooldownOver_def)

text \<open>
  The cooldown while the warnings collection is usable. Two updates of one pair (user,
  group) that reach the escalation block, the second at most 60 seconds after the
  first: at most one warning message goes out over the two, and each update stores the
  count it found plus one (reset to 0 afterwards only if that count reached 3 and the
  ban and its notice succeeded), whether or not its warning was suppressed. The same
  holds for two calls of \<open>handleInappropriateContent\<close>.
\<close>

theorem cooldown_one_warning:
  fixes engine b0 c1 c2 u g what
  defines "b1 \<equiv> fst (on_message_text engine b0 c1)"
    and "m1 \<equiv> fst (handleInappropriateContent b0 c1 u g what)"
  assumes g0: "g \<noteq> 0"
    and chats: "ctx_chatId c1 = g" "ctx_chatId c2 = g"
    and re: "reachesEscalation engine b0 c1 u" "reachesEscalation engine b0 c2 u"
    and us: "userWarningsAcrossSessions (bot_db b0) = Some coll"
    and nn: "0 \<le> storedCount b0 u g"
    and near: "clock c2 - clock c1 \<le> 60000" and started: "clock c1 \<noteq> 0"
  shows "(length (filter isSentWarning (snd (on_message_text engine b0 c1)
                                         @ snd (on_message_text engine b1 c2))) \<le> 1
       \<and> storedCount b1 u g =
           (if storedCount b0 u g + 1 \<ge> 3 \<and> banChatMemberOk c1 \<and> replyOk c1 (BanNotice ''text'')
            then 0 else storedCount b0 u g + 1)
       \<and> storedCount (fst (on_message_text engine b1 c2)) u g =
           (if storedCount b1 u g + 1 \<ge> 3 \<and> banChatMemberOk c2 \<and> replyOk c2 (BanNotice ''text'')
            then 0 else storedCount b1 u g + 1))
     \<and> (length (filter isSentWarning (snd (handleInappropriateContent b0 c1 u g what)
                                         @ snd (handleInappropriateContent m1 c2 u g what))) \<le> 1
       \<and> storedCount m1 u g =
           (if storedCount b0 u g + 1 \<ge> 3 \<and> banChatMemberOk c1 \<and> replyOk c1 (BanNotice what)
            then 0 else storedCount b0 u g + 1)
       \<and> storedCount (fst (handleInappropriateContent m1 c2 u g what)) u g =
           (if storedCount m1 u g + 1 \<ge> 3 \<and> banChatMemberOk c2 \<and> replyOk c2 (BanNotice what)
            then 0 else storedCount m1 u g + 1))"
proof -
  have u0: "u \<noteq> 0" using re(1) by (simp add: reachesEscalation_def)
  \<comment> \<open>the text handler\<close>
  note s1 = text_step [OF re(1) chats(1) g0 us nn]
  note w1 = text_step_warnings [OF re(1) chats(1) g0 us nn]
  obtain coll1 where us1: "userWarningsAcrossSessions (bot_db b1) = Some coll1"
    using s1(4) by (auto simp: b1_def)
  have re1: "reachesEscalation engine b1 c2 u"
    unfolding b1_def using reachesEscalation_cong [OF s1(5,6,7)] re(2) by simp
  have n1: "storedCount b1 u g =
           (if storedCount b0 u g + 1 \<ge> 3 \<and> banChatMemberOk c1 \<and> replyOk c1 (BanNotice ''text'')
            then 0 else storedCount b0 u g + 1)"
    using s1(2) by (simp add: b1_def)
  have nn1: "0 \<le> storedCount b1 u g" using n1 nn by simp
  note s2 = text_step [OF re1 chats(2) g0 us1 nn1]
  note w2 = text_step_warnings [OF re1 chats(2) g0 us1 nn1]
  have t: "length (filter isSentWarning (snd (on_message_text engine b0 c1)
                                         @ snd (on_message_text engine b1 c2))) \<le> 1"
  proof (cases "filter isSentWarning (snd (on_message_text engine b0 c1)) = []")
    case True
    with w2(1) show ?thesis by simp
  next
    case False
    then have "lastWarning (sessionOf b1 (u, g)) = clock c1"
      using w1(2) by (simp add: b1_def)
    then have "\<not> cooldownOver b1 c2 u g"
      using started near by (rule cooldown_closed)
    then have "filter isSentWarning (snd (on_message_text engine b1 c2)) = []"
      by (rule w2(3))
    with w1(1) show ?thesis by simp
  qed
  \<comment> \<open>the media handler\<close>
  note ms1 = media_step [OF u0 g0 us nn, of c1 what]
  note mw1 = media_step_warnings [OF u0 g0 us nn, of c1 what]
  obtain mcoll1 where mus1: "userWarningsAcrossSessions (bot_db m1) = Some mcoll1"
    using ms1(4) by (auto simp: m1_def)
  have k1: "storedCount m1 u g =
           (if storedCount b0 u g + 1 \<ge> 3 \<and> banChatMemberOk c1 \<and> replyOk c1 (BanNotice what)
            then 0 else storedCount b0 u g + 1)"
    using ms1(2) by (simp add: m1_def)
  have mnn1: "0 \<le> storedCount m1 u g" using k1 nn by simp
  note ms2 = media_step [OF u0 g0 mus1 mnn1, of c2 what]
  note mw2 = media_step_warnings [OF u0 g0 mus1 mnn1, of c2 what]
  have m: "length (filter isSentWarning (snd (handleInappropriateContent b0 c1 u g what)
                                         @ snd (handleInappropriateContent m1 c2 u g what))) \<le> 1"
  proof (cases "filter isSentWarning (snd (handleInappropriateContent b0 c1 u g what)) = []")
    case True
    with mw2(1) show ?thesis by simp
  next
    case False
    then have "lastWarning (sessionOf m1 (u, g)) = clock c1"
      using mw1(2) by (simp add: m1_def)
    then have "\<not> cooldownOver m1 c2 u g"
      using started near by (rule cooldown_closed)
    then have "filter isSentWarning (snd (handleInappropriateContent m1 c2 u g what)) = []"
      by (rule mw2(3))
    with mw1(1) show ?thesis by simp
  qed
  from t n1 s2(2) m k1 ms2(2) show ?thesis by blast
qed

lemma group_update_fields:
  "ctx_chatId (group_update t now d) = 7" "clock (group_update t now d) = now"
  "deleteMessageOk (group_update t now d) = d" "banChatMemberOk (group_update t now d)"
  "replyOk (group_update t now d) r"
  by (simp_all add: group_update_def)

text \<open>
  Two abusive messages 30 seconds apart: one warning, and the stored count goes to 1
  and then to 2.
\<close>

theorem cooldown_one_warning_witness:
  "snd burst1 = [DeleteMessage True, Reply (WarningNotice ''text'' 1) True]
   \<and> snd burst2 = [DeleteMessage True]
   \<and> length (filter isSentWarning (snd burst1 @ snd burst2)) \<le> 1
   \<and> storedCount (fst burst1) 42 7 = 1
   \<and> storedCount (fst burst2) 42 7 = 2"
proof -
  have re: "reachesEscalation (\<lambda>p. None) sample_bot (group_update ''SHIT'' 1700000000000 True) 42"
    "reachesEscalation (\<lambda>p. None) sample_bot (group_update ''more shit!'' 1700000030000 True) 42"
    by code_simp+
  have us: "userWarningsAcrossSessions (bot_db sample_bot) = Some Map.empty"
    by (simp add: sample_bot_def emptyDatabase_def)
  have zero: "storedCount sample_bot 42 7 = 0"
    by (simp add: storedCount_def getUserWarningsAcrossSessions_def sample_bot_def emptyDatabase_def)
  then have nn: "0 \<le> storedCount sample_bot 42 7" by simp
  have g0: "(7::int) \<noteq> 0" by simp
  have near: "clock (group_update ''more shit!'' 1700000030000 True)
              - clock (group_update ''SHIT'' 1700000000000 True) \<le> 60000"
    and started: "clock (group_update ''SHIT'' 1700000000000 True) \<noteq> 0"
    by (simp_all add: group_update_fields)
  have e1: "snd burst1 = [DeleteMessage True, Reply (WarningNotice ''text'' 1) True]" by code_simp
  have e2: "snd burst2 = [DeleteMessage True]" by code_simp
  show ?thesis
    using cooldown_one_warning [OF g0 group_update_fields(1) group_update_fields(1) re us nn near started,
        of "''image''"] zero e1 e2
    by (simp add: burst1_def burst2_def)
qed

text \<open>
  C5 fails while the warnings collection is unavailable. The two database functions
  answer \<open>null\<close> and \<open>false\<close> instead of throwing, so the session-based fallback in the
  \<open>catch\<close> block of the handler never runs. Of two abusive messages 30 seconds apart
  the first draws warning "1/3" and the second none, but neither is added to a count:
  nothing is stored, and the session count is set to 1 both times. A third message a
  minute later is warning "1/3" again.
\<close>

theorem cooldown_count_unavailable:
  "snd offline1 = [DeleteMessage True, Reply (WarningNotice ''text'' 1) True]
   \<and> snd offline2 = [DeleteMessage True]
   \<and> storedCount (fst offline1) 42 7 = 0
   \<and> storedCount (fst offline2) 42 7 = 0
   \<and> abusiveWordCount (sessionOf (fst offline1) (42, 7)) = 1
   \<and> abusiveWordCount (sessionOf (fst offline2) (42, 7)) = 1
   \<and> snd offline3 = [DeleteMessage True, Reply (WarningNotice ''text'' 1) True]"
proof -
  have a: "snd offline1 = [DeleteMessage True, Reply (WarningNotice ''text'' 1) True]" by code_simp
  have b: "snd offline2 = [DeleteMessage True]" by code_simp
  have c: "storedCount (fst offline1) 42 7 = 0" by code_simp
  have d: "storedCount (fst offline2) 42 7 = 0" by code_simp
  have e: "abusiveWordCount (sessionOf (fst offline1) (42, 7)) = 1" by code_simp
  have f: "abusiveWordCount (sessionOf (fst offline2) (42, 7)) = 1" by code_simp
  have g: "snd offline3 = [DeleteMessage True, Reply (WarningNotice ''text'' 1) True]" by code_simp
  from a b c d e f g show ?thesis by blast
qed

text \<open>
  C7, as the code has it. When deleting the flagged text message fails, the bot replies
  that it could not delete the message and that its permissions should be checked. If
  the count computed for the violation has reached 3, the ban proceeds as it does for
  a deleted message; below 3 nothing else is sent: the warning is only given for a
  message that was deleted. While the warnings collection is usable (group id not 0,
  stored count not negative), the count computed for the violation is the stored count
  plus one, and the violation is counted: the count stored afterwards is that number,
  or 0 when it reached 3 and the ban and its notice succeeded.
\<close>

theorem delete_failure_outcome:
  assumes re: "reachesEscalation engine b ctx u" and g: "ctx_chatId ctx = g"
    and failed: "\<not> deleteMessageOk ctx"
  shows "snd (on_message_text engine b ctx) =
           [DeleteMessage False, Reply DeleteFailedNotice (replyOk ctx DeleteFailedNotice)]
           @ (if violationCount b u g \<ge> 3 then textBan ctx else [])
       \<and> (g \<noteq> 0 \<and> userWarningsAcrossSessions (bot_db b) \<noteq> None \<and> 0 \<le> storedCount b u g \<longrightarrow>
            violationCount b u g = storedCount b u g + 1
          \<and> storedCount (fst (on_message_text engine b ctx)) u g =
              (if storedCount b u g + 1 \<ge> 3 \<and> banChatMemberOk ctx \<and> replyOk ctx (BanNotice ''text'')
               then 0 else storedCount b u g + 1))"
proof -
  have u0: "u \<noteq> 0" using re by (simp add: reachesEscalation_def)
  have eff: "snd (on_message_text engine b ctx) =
           [DeleteMessage False, Reply DeleteFailedNotice (replyOk ctx DeleteFailedNotice)]
           @ (if violationCount b u g \<ge> 3 then textBan ctx else [])"
    unfolding on_message_text_escalation [OF re g] using failed
    by (simp add: Let_def deletion_def textBan_def violationCount_def)
  have cnt: "violationCount b u g = storedCount b u g + 1
          \<and> storedCount (fst (on_message_text engine b ctx)) u g =
              (if storedCount b u g + 1 \<ge> 3 \<and> banChatMemberOk ctx \<and> replyOk ctx (BanNotice ''text'')
               then 0 else storedCount b u g + 1)"
    if g0: "g \<noteq> 0" and us: "userWarningsAcrossSessions (bot_db b) \<noteq> None"
      and nn: "0 \<le> storedCount b u g"
  proof -
    from us obtain coll where us': "userWarningsAcrossSessions (bot_db b) = Some coll" by blast
    have us0: "userWarningsAcrossSessions (bot_db (initSession b (u, g))) = Some coll"
      using us' by (simp add: initSession_def)
    have sc0: "storedCount (initSession b (u, g)) u g = storedCount b u g"
      by (simp add: initSession_def storedCount_def)
    have "violationCount b u g = storedCount b u g + 1"
      unfolding violationCount_def
      using countViolation_usable(1) [OF us0 u0 g0] nn sc0 by simp
    with text_step(2) [OF re g g0 us' nn] show ?thesis by simp
  qed
  from eff cnt show ?thesis by blast
qed

text \<open>
  A first violation whose message cannot be deleted draws the failure notice only and
  is counted; a third one draws the failure notice and the ban, and the count is reset.
\<close>

theorem delete_failure_outcome_witness:
  "snd failed_delete = [DeleteMessage False, Reply DeleteFailedNotice True]
   \<and> violationCount sample_bot 42 7 = 1
   \<and> storedCount (fst failed_delete) 42 7 = 1
   \<and> snd failed_delete3 =
       [DeleteMessage False, Reply DeleteFailedNotice True, BanChatMember True, Reply (BanNotice ''text'') True]
   \<and> violationCount (fst ladder2) 42 7 = 3
   \<and> storedCount (fst failed_delete3) 42 7 = 0"
proof -
  have re: "reachesEscalation (\<lambda>p. None) sample_bot (group_update ''you FUCK off'' 1700000000000 False) 42"
    "reachesEscalation (\<lambda>p. None) (fst ladder2) (group_update ''you FUCK off'' 1700000122000 False) 42"
    by code_simp+
  have us: "userWarningsAcrossSessions (bot_db sample_bot) \<noteq> None"
    by (simp add: sample_bot_def emptyDatabase_def)
  have "case userWarningsAcrossSessions (bot_db (fst ladder2)) of None \<Rightarrow> False | Some coll \<Rightarrow> True"
    by code_simp
  then have us2: "userWarningsAcrossSessions (bot_db (fst ladder2)) \<noteq> None"
    by (cases "userWarningsAcrossSessions (bot_db (fst ladder2))") simp_all
  have zero: "storedCount sample_bot 42 7 = 0"
    by (simp add: storedCount_def getUserWarningsAcrossSessions_def sample_bot_def emptyDatabase_def)
  have two: "storedCount (fst ladder2) 42 7 = 2" by code_simp
  have g0: "(7::int) \<noteq> 0" by simp
  have f: "\<not> deleteMessageOk (group_update t now False)" for t now
    by (simp add: group_update_fields)
  have tb: "textBan (group_update t now False) = [BanChatMember True, Reply (BanNotice ''text'') True]" for t now
    by (simp add: textBan_def group_update_fields)
  show ?thesis
    using delete_failure_outcome [OF re(1) group_update_fields(1) f]
      delete_failure_outcome [OF re(2) group_update_fields(1) f] us us2 zero two g0
    by (simp add: failed_delete_def failed_delete3_def group_update_fields tb)
qed

text \<open>
  C7 as stated fails below the threshold: the same first violation draws warning
  "1/3" when the message is deleted, and no warning when the deletion fails.
\<close>

theorem delete_failure_counterexample:
  "snd (on_message_text (\<lambda>p. None) sample_bot (group_update ''you FUCK off'' 1700000000000 True))
     = [DeleteMessage True, Reply (WarningNotice ''text'' 1) True]
   \<and> snd (on_message_text (\<lambda>p. None) sample_bot (group_update ''you FUCK off'' 1700000000000 False))
     = [DeleteMessage False, Reply DeleteFailedNotice True]"
  by code_simp

text \<open>
  An administrator's text, flagged or not, changes nothing in the database and draws
  no moderation action: the handler sends nothing, or only the notice that the bot
  itself cannot moderate.
\<close>

theorem administrators_exempt:
  assumes "isAdmin (userMember ctx)"
  shows "bot_db (fst (on_message_text engine b ctx)) = bot_db b
       \<and> (snd (on_message_text engine b ctx) = []
          \<or> snd (on_message_text engine b ctx) = [Reply CannotModerateNotice (replyOk ctx CannotModerateNotice)])"
  using assms
  by (auto simp: on_message_text_def Let_def split: option.splits)

theorem administrators_exempt_witness:
  "snd (on_message_text (\<lambda>p. None) sample_bot admin_update) = []
   \<and> bot_db (fst (on_message_text (\<lambda>p. None) sample_bot admin_update)) = bot_db sample_bot
   \<and> containsAbusiveWord (\<lambda>p. None) sample_bot (Str (ctx_text admin_update)) (Some 7)"
proof -
  have a: "isAdmin (userMember admin_update)" by (simp add: admin_update_def isAdmin_def)
  have e: "snd (on_message_text (\<lambda>p. None) sample_bot admin_update) = []" by code_simp
  have f: "containsAbusiveWord (\<lambda>p. None) sample_bot (Str (ctx_text admin_update)) (Some 7)" by code_simp
  from administrators_exempt [OF a, of "\<lambda>p. None" sample_bot] e f show ?thesis by simp
qed

end
